theory Spec2Isabelle
  imports Main "HOL-Library.Multiset" "HOL-Library.Sublist"
begin

text \<open>
  The synchronisation engine of the Obsidian plugin obsidotion (TypeScript), embedded in
  HOL: the sync queue of \<open>SyncManager\<close>, the document codec of \<open>MarkdownConverter\<close> and
  the earlier renderer of \<open>DownloadFromNotion\<close>, the remote client
  \<open>NotionAPIService\<close> with \<open>Validator\<close>, the download of a page by
  \<open>DownloadService\<close> and the upload pass of the plugin itself. The first sections hold
  the model, function by function; the sections named "Properties" hold what is proved
  of it.

  The sync queue is a state and the events that reach it, taken one at a time, each run
  to the next \<open>await\<close>: activations of \<open>processQueue\<close> that nobody awaits go on side by
  side. Elsewhere an \<open>async\<close> method is its sequential run. What a method throws is a
  value: a result \<open>js_error + 'a\<close> has the error on the left. What lies outside the code
  (the network, the vault, the libraries) is a function handed to the model. Strings are
  lists of characters.
\<close>

section \<open>Errors\<close>

text \<open>
  The errors the modelled code throws or lets through. \<open>TypeError\<close> and \<open>RangeError\<close>
  come from the language itself (a property read on \<open>null\<close>, a negative count for
  \<open>String.prototype.repeat\<close>); \<open>Thrown\<close> is a \<open>new Error(message)\<close> of the code, by
  its message; \<open>Failed what status\<close> is the code's "Failed to \<open>what\<close>: \<open>status\<close>" and
  \<open>RequestFailed\<close> the error of \<open>makeRequest\<close> for a status of 400 or more; \<open>Host\<close>
  is whatever a call into the platform or the network threw.
\<close>

datatype js_error =
    TypeError
  | RangeError
  | Thrown string
  | Failed string int
  | RequestFailed int
  | Host string

section \<open>Sync queue (src/src/services/sync-manager.ts)\<close>

text \<open>
  JavaScript's \<open>String.prototype.includes\<close>: does \<open>sub\<close> occur somewhere in \<open>s\<close>.
\<close>

fun str_includes :: "string \<Rightarrow> string \<Rightarrow> bool" where
  "str_includes [] sub = (sub = [])"
| "str_includes (c # cs) sub = (take (length sub) (c # cs) = sub \<or> str_includes cs sub)"

text \<open>
  The value caught by \<open>processQueue\<close>, by the two properties the code reads of it. An
  \<open>Error\<close> has a string \<open>message\<close>; errors of the platform also have a \<open>code\<close>. A
  rejection may be any object: \<open>message = None\<close> is one without a \<open>message\<close>.
\<close>

record sync_error =
  message :: "string option"
  code :: "string option"

text \<open>
  \<open>isNetworkError\<close> calls \<open>error.message.includes\<close> first: without a message that is a
  call on \<open>undefined\<close>, a \<open>TypeError\<close>.
\<close>

definition isNetworkError :: "sync_error \<Rightarrow> js_error + bool" where
  "isNetworkError error =
     (case message error of
        None \<Rightarrow> Inl TypeError
      | Some m \<Rightarrow>
          Inr (str_includes m ''network'' \<or>
               str_includes m ''fetch'' \<or>
               str_includes m ''timeout'' \<or>
               code error = Some ''ENOTFOUND''))"

datatype op_type = Upload | Download | Delete

text \<open>
  \<open>interface SyncOperation\<close>. The file is kept by one string, which stands for its
  path and its name; \<open>data\<close> is only handed on to the operation executed and is not
  part of the queue's logic. \<open>op_id\<close> is not a field of the interface: it stands for the
  identity of the object that \<open>queueOperation\<close> creates, which the queue and the
  activations of \<open>processQueue\<close> hand on by reference and update in place.
\<close>

record SyncOperation =
  op_id :: nat
  optype :: op_type
  op_file :: string
  timestamp :: nat
  retries :: nat

text \<open>
  How a call of \<open>executeOperation\<close> ends: it returns, or it throws what the upload,
  download or archive request threw (for a rejection by \<open>null\<close> or \<open>undefined\<close>, the
  \<open>TypeError\<close> of its own \<open>catch\<close> block, which reads \<open>error.message\<close>).
\<close>

datatype outcome = Success | Failure sync_error

datatype sync_status = synced | syncing | offline | conflicts

text \<open>
  What the queue does to the outside, in the order in which it does it: it starts an
  execution (the call of \<open>executeOperation\<close>), an execution ends with the outcome the
  world gives it, and \<open>processQueue\<close> reports "Failed to sync ... after 3 retries".
\<close>

datatype action =
    Started SyncOperation
  | Ended SyncOperation outcome
  | Reported SyncOperation

text \<open>
  The fields of \<open>SyncManager\<close> that \<open>processQueue\<close> reads and writes: the queue, the
  connectivity flag and the status last given to \<open>updateStatus\<close>. \<open>processQueue\<close> is
  \<open>async\<close> and none of its callers awaits it, so several activations of it may be under
  way: \<open>awaiting\<close> holds, for each activation suspended at
  \<open>await this.executeOperation(operation)\<close>, the operation it has taken off the queue.
  \<open>created\<close> counts the operations made so far and \<open>trace\<close> records the actions.
\<close>

record SyncManager =
  syncQueue :: "SyncOperation list"
  isOnline :: bool
  status :: sync_status
  awaiting :: "SyncOperation list"
  created :: nat
  trace :: "action list"

text \<open>
  How far an activation of \<open>processQueue\<close> gets when it runs: to the next \<open>await\<close>, to
  its end, or to an exception that leaves it.
\<close>

datatype activation = Awaits SyncOperation | Returned | Rejected js_error

text \<open>
  \<open>executeOperation\<close>, from its call to the \<open>await\<close> of the upload, download or archive
  request: the operation's execution is under way.
\<close>

definition executeOperation :: "SyncOperation \<Rightarrow> SyncManager \<Rightarrow> SyncManager" where
  "executeOperation operation s =
     s\<lparr>status := syncing, trace := trace s @ [Started operation]\<rparr>"

text \<open>
  \<open>executeOperation\<close>, from the end of the request: whatever the outcome, the \<open>finally\<close>
  block sets the status from the queue's length. A failure is thrown again to the caller.
\<close>

definition settled :: "SyncOperation \<Rightarrow> outcome \<Rightarrow> SyncManager \<Rightarrow> SyncManager" where
  "settled operation out s =
     s\<lparr>trace := trace s @ [Ended operation out],
       status := (if syncQueue s \<noteq> [] then syncing else synced)\<rparr>"

text \<open>The two statements of \<open>processQueue\<close> after its loop.\<close>

definition afterLoop :: "SyncManager \<Rightarrow> SyncManager" where
  "afterLoop s = s\<lparr>status := (if syncQueue s \<noteq> [] then offline else synced)\<rparr>"

text \<open>
  The \<open>while\<close> loop from its condition: with an operation queued and the manager online
  it takes the first operation off the queue and starts its execution, where the
  activation is suspended; otherwise the loop is left and \<open>processQueue\<close> returns.
\<close>

definition whileLoop :: "SyncManager \<Rightarrow> activation \<times> SyncManager" where
  "whileLoop s =
     (case syncQueue s of
        [] \<Rightarrow> (Returned, afterLoop s)
      | operation # rest \<Rightarrow>
          if isOnline s
          then (Awaits operation, executeOperation operation (s\<lparr>syncQueue := rest\<rparr>))
          else (Returned, afterLoop s))"

text \<open>\<open>processQueue\<close>, from its call.\<close>

definition processQueue :: "SyncManager \<Rightarrow> activation \<times> SyncManager" where
  "processQueue s =
     (if syncQueue s = [] then (Returned, s\<lparr>status := synced\<rparr>)
      else whileLoop (s\<lparr>status := syncing\<rparr>))"

text \<open>
  The \<open>try\<close> statement of the loop's body, from the end of the awaited execution: how
  the body is left (to the loop's condition, by \<open>break\<close>, or by the exception of
  \<open>isNetworkError\<close> inside the \<open>catch\<close> block) and the state it leaves.
\<close>

datatype control = Continue | Break | Throw js_error

definition tryCatch :: "SyncOperation \<Rightarrow> outcome \<Rightarrow> SyncManager \<Rightarrow> control \<times> SyncManager" where
  "tryCatch operation out s =
     (let s1 = settled operation out s
      in case out of
           Success \<Rightarrow> (Continue, s1)
         | Failure error \<Rightarrow>
             (case isNetworkError error of
                Inl e \<Rightarrow> (Throw e, s1)
              | Inr network \<Rightarrow>
                  if network
                  then (Break, s1\<lparr>syncQueue := operation # syncQueue s1,
                                   isOnline := False, status := offline\<rparr>)
                  else
                    (let operation' = operation\<lparr>retries := retries operation + 1\<rparr>
                     in if retries operation' < 3
                        then (Continue, s1\<lparr>syncQueue := syncQueue s1 @ [operation']\<rparr>)
                        else (Continue, s1\<lparr>trace := trace s1 @ [Reported operation']\<rparr>))))"

text \<open>
  An activation of \<open>processQueue\<close> that awaited the execution of \<open>operation\<close>, from the
  end of that execution.
\<close>

definition resumed :: "SyncOperation \<Rightarrow> outcome \<Rightarrow> SyncManager \<Rightarrow> activation \<times> SyncManager" where
  "resumed operation out s =
     (case tryCatch operation out s of
        (Continue, s1) \<Rightarrow> whileLoop s1
      | (Break, s1) \<Rightarrow> (Returned, afterLoop s1)
      | (Throw e, s1) \<Rightarrow> (Rejected e, s1))"

text \<open>
  The caller of \<open>processQueue\<close> goes on without awaiting it: a suspended activation
  stays behind, with the operation it awaits; a rejection is handled by nobody.
\<close>

fun suspend :: "activation \<times> SyncManager \<Rightarrow> SyncManager" where
  "suspend (Awaits operation, s) = s\<lparr>awaiting := awaiting s @ [operation]\<rparr>"
| "suspend (Returned, s) = s"
| "suspend (Rejected e, s) = s"

definition queueOperation :: "op_type \<Rightarrow> string \<Rightarrow> nat \<Rightarrow> SyncManager \<Rightarrow> SyncManager" where
  "queueOperation t f now s =
     (let operation = \<lparr>op_id = created s, optype = t, op_file = f, timestamp = now, retries = 0\<rparr>;
          s1 = s\<lparr>syncQueue := syncQueue s @ [operation], created := Suc (created s)\<rparr>
      in if isOnline s1 then suspend (processQueue s1) else s1)"

text \<open>The handlers of the window's \<open>online\<close> and \<open>offline\<close> events.\<close>

definition onlineHandler :: "SyncManager \<Rightarrow> SyncManager" where
  "onlineHandler s = suspend (processQueue (s\<lparr>isOnline := True, status := syncing\<rparr>))"

definition offlineHandler :: "SyncManager \<Rightarrow> SyncManager" where
  "offlineHandler s = s\<lparr>isOnline := False, status := offline\<rparr>"

text \<open>
  What happens to the manager, one event after the other (JavaScript runs each to the
  next \<open>await\<close> before it takes the next): a call of \<open>queueOperation\<close>, the two window
  events, and the end of the execution that the \<open>k\<close>-th suspended activation awaits,
  with its outcome. An activation that is suspended again is the last of \<open>awaiting\<close>.
  Between the end of an execution and the resumption of the activation that awaits it,
  other code can touch the status bar only, not the queue or the flag: the two are one
  event. An event for an activation that is not there changes nothing.
\<close>

datatype event =
    QueueOperation op_type string nat
  | Online
  | Offline
  | Settled nat outcome

fun step :: "event \<Rightarrow> SyncManager \<Rightarrow> SyncManager" where
  "step (QueueOperation t f now) s = queueOperation t f now s"
| "step Online s = onlineHandler s"
| "step Offline s = offlineHandler s"
| "step (Settled k out) s =
     (if k < length (awaiting s)
      then suspend (resumed (awaiting s ! k) out
             (s\<lparr>awaiting := take k (awaiting s) @ drop (Suc k) (awaiting s)\<rparr>))
      else s)"

definition run :: "event list \<Rightarrow> SyncManager \<Rightarrow> SyncManager" where
  "run es s = fold step es s"

text \<open>The manager as its constructor leaves it.\<close>

definition constructed :: SyncManager where
  "constructed =
     \<lparr>syncQueue = [], isOnline = True, status = synced, awaiting = [], created = 0, trace = []\<rparr>"

subsection \<open>What the trace says\<close>

text \<open>
  How often the executions of the operation \<open>i\<close> ended in a failure that
  \<open>isNetworkError\<close> classifies as not of the network.
\<close>

fun counted :: "nat \<Rightarrow> action \<Rightarrow> bool" where
  "counted i (Ended operation (Failure error)) =
     (op_id operation = i \<and> isNetworkError error = Inr False)"
| "counted i (Ended operation Success) = False"
| "counted i (Started operation) = False"
| "counted i (Reported operation) = False"

definition failures :: "action list \<Rightarrow> nat \<Rightarrow> nat" where
  "failures tr i = length (filter (counted i) tr)"

text \<open>
  The operations that have left the queue for good, each by its identity: those
  executed with success, those reported after 3 retries, and those whose failure
  \<open>isNetworkError\<close> could not classify.
\<close>

fun succeeded :: "action list \<Rightarrow> nat list" where
  "succeeded [] = []"
| "succeeded (Ended operation Success # tr) = op_id operation # succeeded tr"
| "succeeded (a # tr) = succeeded tr"

fun reported :: "action list \<Rightarrow> nat list" where
  "reported [] = []"
| "reported (Reported operation # tr) = op_id operation # reported tr"
| "reported (a # tr) = reported tr"

fun unclassified :: "action list \<Rightarrow> nat list" where
  "unclassified [] = []"
| "unclassified (Ended operation (Failure error) # tr) =
     (case isNetworkError error of
        Inl e \<Rightarrow> op_id operation # unclassified tr
      | Inr network \<Rightarrow> unclassified tr)"
| "unclassified (a # tr) = unclassified tr"

text \<open>The executions started, and the executions ended with their outcomes.\<close>

fun startings :: "action list \<Rightarrow> SyncOperation list" where
  "startings [] = []"
| "startings (Started operation # tr) = operation # startings tr"
| "startings (a # tr) = startings tr"

fun endings :: "action list \<Rightarrow> (SyncOperation \<times> outcome) list" where
  "endings [] = []"
| "endings (Ended operation out # tr) = (operation, out) # endings tr"
| "endings (a # tr) = endings tr"

text \<open>The outcomes that the events hand to the manager.\<close>

fun granted :: "event list \<Rightarrow> outcome list" where
  "granted [] = []"
| "granted (Settled k out # es) = out # granted es"
| "granted (e # es) = granted es"

text \<open>
  No execution in the trace is a fourth one: whenever the execution of an operation
  starts, the operation's counter is below 3 and is the number of counted failures of
  its executions so far.
\<close>

fun in_budget :: "action list \<Rightarrow> action \<Rightarrow> bool" where
  "in_budget before (Started operation) =
     (retries operation < 3 \<and> failures before (op_id operation) = retries operation)"
| "in_budget before (Ended operation out) = True"
| "in_budget before (Reported operation) = True"

definition within_budget :: "action list \<Rightarrow> bool" where
  "within_budget tr = list_all (\<lambda>j. in_budget (take j tr) (tr ! j)) [0..<length tr]"

text \<open>Every failure among the events is an \<open>Error\<close>, with its message.\<close>

fun with_message :: "event \<Rightarrow> bool" where
  "with_message (Settled k (Failure error)) = (message error \<noteq> None)"
| "with_message e = True"

subsection \<open>Sample operations and errors\<close>

definition demo_op :: "nat \<Rightarrow> string \<Rightarrow> nat \<Rightarrow> SyncOperation" where
  "demo_op i f r = \<lparr>op_id = i, optype = Upload, op_file = f, timestamp = 0, retries = r\<rparr>"

definition api_failure :: sync_error where
  "api_failure =
     \<lparr>message = Some ''Request failed, status 400: body failed validation'', code = None\<rparr>"

definition fetch_failure :: sync_error where
  "fetch_failure = \<lparr>message = Some ''Failed to fetch'', code = None\<rparr>"

definition bare_failure :: sync_error where
  "bare_failure = \<lparr>message = None, code = Some ''EIO''\<rparr>"

subsection \<open>The invariant of the queue\<close>

text \<open>
  The identities of the operations of a list, and of the operations that have left the
  queue for good.
\<close>

definition ids :: "SyncOperation list \<Rightarrow> nat multiset" where
  "ids operations = mset (map op_id operations)"

definition finished :: "action list \<Rightarrow> nat multiset" where
  "finished tr = mset (succeeded tr) + mset (reported tr) + mset (unclassified tr)"

text \<open>
  What every event keeps true of the manager: each operation made so far is, exactly
  once, queued, awaited, or gone for good; a queued or awaited operation has failed as
  often as its counter says, fewer than 3 times; no operation has more than 3 counted
  failures, and it has a report, one, exactly when it has 3; an operation not made yet
  has none; no execution was a fourth one; and every execution started has ended or is
  awaited.
\<close>

definition queue_inv :: "SyncManager \<Rightarrow> bool" where
  "queue_inv s \<longleftrightarrow>
     ids (syncQueue s) + ids (awaiting s) + finished (trace s) = mset [0..<created s] \<and>
     (\<forall>operation \<in> set (syncQueue s) \<union> set (awaiting s).
        retries operation < 3 \<and> failures (trace s) (op_id operation) = retries operation) \<and>
     (\<forall>i. failures (trace s) i \<le> 3 \<and>
          count_list (reported (trace s)) i = (if failures (trace s) i = 3 then 1 else 0)) \<and>
     (\<forall>i. created s \<le> i \<longrightarrow> failures (trace s) i = 0) \<and>
     within_budget (trace s) \<and>
     mset (startings (trace s)) = mset (map fst (endings (trace s))) + mset (awaiting s)"

text \<open>Processing has not stopped while the manager is online and operations are queued.\<close>

definition live :: "SyncManager \<Rightarrow> bool" where
  "live s \<longleftrightarrow> (syncQueue s \<noteq> [] \<and> isOnline s \<longrightarrow> awaiting s \<noteq> [])"

text \<open>The calls of \<open>queueOperation\<close> among the events.\<close>

fun calls :: "event list \<Rightarrow> nat" where
  "calls [] = 0"
| "calls (QueueOperation t f now # es) = Suc (calls es)"
| "calls (e # es) = calls es"

text \<open>
  The events that leave the front of the queue as it is while the manager is offline:
  all but the \<open>online\<close> event and the end of an execution in a failure of the network.
\<close>

fun undisturbed :: "event \<Rightarrow> bool" where
  "undisturbed Online = False"
| "undisturbed (Settled k (Failure error)) = (isNetworkError error \<noteq> Inr True)"
| "undisturbed e = True"

section \<open>Document codec (MarkdownConverter)\<close>

subsection \<open>Numbers as text\<close>

definition digit :: "nat \<Rightarrow> char" where
  "digit d = ''0123456789'' ! d"

function show_nat :: "nat \<Rightarrow> string" where
  "show_nat n = (if n < 10 then [digit n] else show_nat (n div 10) @ [digit (n mod 10)])"
  by pat_completeness auto
termination
  by (relation "measure id") auto

definition show_int :: "int \<Rightarrow> string" where
  "show_int i = (if i < 0 then CHR ''-'' # show_nat (nat (- i)) else show_nat (nat i))"

subsection \<open>Rich text\<close>

text \<open>
  One item of a \<open>rich_text\<close> array, by the values \<open>extractRichText\<close> reads through
  optional chaining: \<open>item.text?.content\<close>, the four \<open>item.annotations?.\<close> flags and
  \<open>item.text?.link?.url\<close>. A missing value is \<open>None\<close>; a flag is its truthiness.
\<close>

record rich_text_item =
  content :: "string option"
  bold :: bool
  italic :: bool
  code_span :: bool
  strikethrough :: bool
  link_url :: "string option"

text \<open>
  A \<open>rich_text\<close> array may hold \<open>null\<close> where an item should be: \<open>None\<close> in the list.
  Reading \<open>item.text\<close> of it throws a \<open>TypeError\<close>.
\<close>

type_synonym rich_text = "rich_text_item option list"

text \<open>JavaScript's \<open>a || b\<close> on strings that may be missing: the empty string is falsy.\<close>

definition or_else :: "string option \<Rightarrow> string \<Rightarrow> string" where
  "or_else a b = (case a of None \<Rightarrow> b | Some s \<Rightarrow> if s = [] then b else s)"

definition truthy :: "string option \<Rightarrow> bool" where
  "truthy a = (case a of None \<Rightarrow> False | Some s \<Rightarrow> s \<noteq> [])"

definition formatItem :: "rich_text_item \<Rightarrow> string" where
  "formatItem item =
     (let text0 = or_else (content item) [];
          text1 = (if bold item then ''**'' @ text0 @ ''**'' else text0);
          text2 = (if italic item then ''*'' @ text1 @ ''*'' else text1);
          text3 = (if code_span item then ''`'' @ text2 @ ''`'' else text2);
          text4 = (if strikethrough item then ''~~'' @ text3 @ ''~~'' else text3)
      in if truthy (link_url item)
         then ''['' @ text4 @ '']('' @ the (link_url item) @ '')''
         else text4)"

fun mapItems :: "rich_text \<Rightarrow> js_error + string list" where
  "mapItems [] = Inr []"
| "mapItems (None # items) = Inl TypeError"
| "mapItems (Some item # items) =
     (case mapItems items of Inl e \<Rightarrow> Inl e | Inr texts \<Rightarrow> Inr (formatItem item # texts))"

text \<open>\<open>extractRichText\<close>: the empty string when there is no array.\<close>

definition extractRichText :: "rich_text option \<Rightarrow> js_error + string" where
  "extractRichText richTextArray =
     (case richTextArray of
        None \<Rightarrow> Inr []
      | Some items \<Rightarrow> (case mapItems items of Inl e \<Rightarrow> Inl e | Inr texts \<Rightarrow> Inr (concat texts)))"

subsection \<open>Blocks\<close>

text \<open>
  The object a block holds under a key (\<open>block.paragraph\<close>, \<open>block.code\<close>,
  \<open>block.image\<close>, ...), by the values \<open>blockToMarkdown\<close> reads from it:
  \<open>.rich_text\<close>, \<open>.language\<close>, \<open>.checked\<close>, \<open>.file?.url\<close>, \<open>.external?.url\<close>
  and \<open>.caption\<close>.
\<close>

record payload =
  rich_text :: "rich_text option"
  language :: "string option"
  checked :: bool
  file_url :: "string option"
  external_url :: "string option"
  caption :: "rich_text option"

text \<open>
  \<open>interface NotionBlock\<close>: \<open>id\<close>, \<open>type\<close>, \<open>has_children\<close> and the other keys, here
  those whose value is an object, in the object's own order.
\<close>

record NotionBlock =
  block_id :: string
  block_type :: string
  has_children :: bool
  entries :: "(string \<times> payload) list"

text \<open>\<open>block.key?.field\<close>\<close>

definition field :: "NotionBlock \<Rightarrow> string \<Rightarrow> (payload \<Rightarrow> 'a option) \<Rightarrow> 'a option" where
  "field block k get = (case map_of (entries block) k of None \<Rightarrow> None | Some p \<Rightarrow> get p)"

text \<open>
  \<open>extractAnyRichText\<close>: the rich text of the first entry that has one (an array, also
  an empty one, is truthy).
\<close>

fun firstRichText :: "(string \<times> payload) list \<Rightarrow> js_error + string" where
  "firstRichText [] = Inr []"
| "firstRichText ((k, p) # rest) =
     (case rich_text p of None \<Rightarrow> firstRichText rest | Some items \<Rightarrow> extractRichText (Some items))"

definition extractAnyRichText :: "NotionBlock \<Rightarrow> js_error + string" where
  "extractAnyRichText block = firstRichText (entries block)"

definition convertTableToMarkdown :: "NotionBlock \<Rightarrow> string" where
  "convertTableToMarkdown block =
     (if map_of (entries block) ''table'' = None then []
      else ''| Table content needs to be fetched from child blocks |\<newline>|---|\<newline>'')"

text \<open>
  The \<open>numbering\<close> array, by index: \<open>numbering[i]\<close> is \<open>undefined\<close> where nothing was
  stored. \<open>numbering[i] || 1\<close> is 1 there, and where 0 is stored.
\<close>

type_synonym numbering = "int \<Rightarrow> int option"

definition currentNumber :: "numbering \<Rightarrow> int \<Rightarrow> int" where
  "currentNumber numbering indentLevel =
     (case numbering indentLevel of None \<Rightarrow> 1 | Some n \<Rightarrow> if n = 0 then 1 else n)"

text \<open>\<open>'    '.repeat(indentLevel)\<close>, for a count that is not negative.\<close>

definition indentOf :: "int \<Rightarrow> string" where
  "indentOf indentLevel = concat (replicate (nat indentLevel) ''    '')"

text \<open>
  The \<open>switch\<close> inside the \<open>try\<close> of \<open>blockToMarkdown\<close>: the text added to
  \<open>markdown\<close> and the numbering afterwards, or the error thrown.
\<close>

definition convertBlock :: "NotionBlock \<Rightarrow> int \<Rightarrow> numbering \<Rightarrow> js_error + string \<times> numbering" where
  "convertBlock block indentLevel numbering =
     (let indent = indentOf indentLevel;
          text_of = (\<lambda>k. extractRichText (field block k rich_text));
          line = (\<lambda>before r after.
            case r of Inl e \<Rightarrow> Inl e | Inr t \<Rightarrow> Inr (before @ t @ after, numbering))
      in if block_type block = ''paragraph'' then line indent (text_of ''paragraph'') ''\<newline>''
         else if block_type block = ''heading_1'' then line ''# '' (text_of ''heading_1'') ''\<newline>''
         else if block_type block = ''heading_2'' then line ''## '' (text_of ''heading_2'') ''\<newline>''
         else if block_type block = ''heading_3'' then line ''### '' (text_of ''heading_3'') ''\<newline>''
         else if block_type block = ''bulleted_list_item''
           then line (indent @ ''- '') (text_of ''bulleted_list_item'') ''\<newline>''
         else if block_type block = ''numbered_list_item''
           then (case text_of ''numbered_list_item'' of
                   Inl e \<Rightarrow> Inl e
                 | Inr t \<Rightarrow>
                     Inr (indent @ show_int (currentNumber numbering indentLevel) @ ''. '' @ t @ ''\<newline>'',
                          numbering(indentLevel \<mapsto> currentNumber numbering indentLevel + 1)))
         else if block_type block = ''code''
           then line (''```'' @ or_else (field block ''code'' language) [] @ ''\<newline>'')
                  (text_of ''code'') ''\<newline>```\<newline>''
         else if block_type block = ''quote'' then line ''> '' (text_of ''quote'') ''\<newline>''
         else if block_type block = ''divider'' then Inr (''---\<newline>'', numbering)
         else if block_type block = ''table''
           then Inr (convertTableToMarkdown block @ ''\<newline>'', numbering)
         else if block_type block = ''image''
           then (let imageUrl = (if truthy (field block ''image'' file_url)
                                 then field block ''image'' file_url
                                 else field block ''image'' external_url)
                 in case extractRichText (field block ''image'' caption) of
                      Inl e \<Rightarrow> Inl e
                    | Inr cap \<Rightarrow>
                        if truthy imageUrl
                        then Inr (''!['' @ cap @ '']('' @ the imageUrl @ '')\<newline>'', numbering)
                        else Inr ([], numbering))
         else if block_type block = ''to_do''
           then line (indent @ ''- '' @
                       (if field block ''to_do'' (\<lambda>p. Some (checked p)) = Some True
                        then ''[x]'' else ''[ ]'') @ '' '')
                  (text_of ''to_do'') ''\<newline>''
         else (case extractAnyRichText block of
                 Inl e \<Rightarrow> Inl e
               | Inr fallbackText \<Rightarrow>
                   if fallbackText \<noteq> [] then Inr (indent @ fallbackText @ ''\<newline>'', numbering)
                   else Inr ([], numbering)))"

text \<open>
  \<open>blockToMarkdown\<close>: the indent is computed before the \<open>try\<close>, so a negative
  \<open>indentLevel\<close> throws; an error inside the \<open>try\<close> becomes a line of text. The
  list of blocks may hold \<open>null\<close> where a block should be, \<open>None\<close> here: reading
  \<open>block.type\<close> of it throws inside the \<open>try\<close> and again inside the \<open>catch\<close>, which
  lets that \<open>TypeError\<close> through.
\<close>

definition blockToMarkdown ::
  "NotionBlock option \<Rightarrow> int \<Rightarrow> numbering \<Rightarrow> js_error + string \<times> numbering" where
  "blockToMarkdown entry indentLevel numbering =
     (if indentLevel < 0 then Inl RangeError
      else
        (case entry of
           None \<Rightarrow> Inl TypeError
         | Some block \<Rightarrow>
             (case convertBlock block indentLevel numbering of
                Inr r \<Rightarrow> Inr r
              | Inl e \<Rightarrow>
                  Inr (indentOf indentLevel @ ''[Error converting block of type: '' @
                       block_type block @ '']\<newline>'', numbering))))"

fun notionBlocksToMarkdown ::
  "NotionBlock option list \<Rightarrow> int \<Rightarrow> numbering \<Rightarrow> js_error + string \<times> numbering" where
  "notionBlocksToMarkdown [] indentLevel numbering = Inr ([], numbering)"
| "notionBlocksToMarkdown (block # blocks) indentLevel numbering =
     (case blockToMarkdown block indentLevel numbering of
        Inl e \<Rightarrow> Inl e
      | Inr (md, numbering') \<Rightarrow>
          (case notionBlocksToMarkdown blocks indentLevel numbering' of
             Inl e \<Rightarrow> Inl e
           | Inr (rest, numbering'') \<Rightarrow> Inr (md @ rest, numbering'')))"



text \<open>
  \<open>convertNotionToMarkdown\<close> of the sync manager, and the download of a page: the
  conversion called with its defaults, \<open>indentLevel = 0\<close> and \<open>numbering = []\<close>.
\<close>

definition convertNotionToMarkdown :: "NotionBlock option list \<Rightarrow> js_error + string" where
  "convertNotionToMarkdown blocks =
     (case notionBlocksToMarkdown blocks 0 Map.empty of
        Inl e \<Rightarrow> Inl e
      | Inr (md, numbering) \<Rightarrow> Inr md)"



subsection \<open>Sample blocks\<close>

definition plain :: "string \<Rightarrow> rich_text_item" where
  "plain s = \<lparr>content = Some s, bold = False, italic = False, code_span = False,
     strikethrough = False, link_url = None\<rparr>"

definition text_block :: "string \<Rightarrow> rich_text \<Rightarrow> NotionBlock" where
  "text_block t items =
     \<lparr>block_id = ''b'', block_type = t, has_children = False,
      entries = [(t, \<lparr>rich_text = Some items, language = None, checked = False,
        file_url = None, external_url = None, caption = None\<rparr>)]\<rparr>"

definition numbered :: "string \<Rightarrow> NotionBlock" where
  "numbered s = text_block ''numbered_list_item'' [Some (plain s)]"

definition bulleted :: "string \<Rightarrow> NotionBlock" where
  "bulleted s = text_block ''bulleted_list_item'' [Some (plain s)]"

section \<open>The earlier block renderer (DownloadFromNotion)\<close>

text \<open>
  \<open>DownloadFromNotion.blockToMarkdown\<close> reads of a block its \<open>type\<close>, the
  \<open>text.content\<close> of the items of its rich text (\<open>None\<close> when it has no
  \<open>rich_text\<close>) and \<open>has_children\<close>, and fetches the children of a list item that has
  some with \<open>getBlockChildren\<close>: the block is kept here with the children fetched.
\<close>

datatype page_block =
  PageBlock (pb_type: string) (pb_texts: "string list option") (pb_has_children: bool)
    (pb_children: "page_block list")

text \<open>\<^verbatim>\<open>rich_text?.map(text => text.text.content).join('') || ''\<close>\<close>

definition joinedText :: "string list option \<Rightarrow> string" where
  "joinedText texts = (case texts of None \<Rightarrow> [] | Some items \<Rightarrow> concat items)"

text \<open>
  \<open>blockToMarkdown\<close> and \<open>blocksToMarkdown\<close>, from an indent level (0 at the call of
  \<open>downloadPage\<close>, one more at each nesting) and the numbering, which the children
  share with their parents. \<open>convertTable\<close> goes through the library
  \<open>markdown-table\<close> and is given as a function.
\<close>

fun blockToMarkdownOld ::
    "(page_block \<Rightarrow> string) \<Rightarrow> page_block \<Rightarrow> nat \<Rightarrow> numbering \<Rightarrow> string \<times> numbering"
  and blocksToMarkdownOld ::
    "(page_block \<Rightarrow> string) \<Rightarrow> page_block list \<Rightarrow> nat \<Rightarrow> numbering \<Rightarrow> string \<times> numbering"
  where
  "blockToMarkdownOld convertTable (PageBlock t texts has children) indentLevel numbering =
     (let indent = indentOf (int indentLevel); body = joinedText texts
      in if t = ''paragraph'' then (indent @ body @ ''\<newline>'', numbering)
         else if t = ''heading_1'' then (''# '' @ body @ ''\<newline>'', numbering)
         else if t = ''heading_2'' then (''## '' @ body @ ''\<newline>'', numbering)
         else if t = ''heading_3'' then (''### '' @ body @ ''\<newline>'', numbering)
         else if t = ''bulleted_list_item''
           then (if has
                 then (case blocksToMarkdownOld convertTable children (indentLevel + 1) numbering of
                         (nested, numbering') \<Rightarrow>
                           (indent @ ''- '' @ body @ ''\<newline>'' @ nested, numbering'))
                 else (indent @ ''- '' @ body @ ''\<newline>'', numbering))
         else if t = ''numbered_list_item''
           then (let line = indent @ show_int (currentNumber numbering (int indentLevel)) @ ''. '' @
                              body @ ''\<newline>'';
                     stored = numbering(int indentLevel \<mapsto>
                                currentNumber numbering (int indentLevel) + 1)
                 in if has
                    then (case blocksToMarkdownOld convertTable children (indentLevel + 1) stored of
                            (nested, numbering') \<Rightarrow> (line @ nested, numbering'))
                    else (line, stored))
         else if t = ''table''
           then (convertTable (PageBlock t texts has children) @ ''\<newline>'', numbering)
         else ([], numbering))"
| "blocksToMarkdownOld convertTable [] indentLevel numbering = ([], numbering)"
| "blocksToMarkdownOld convertTable (block # blocks) indentLevel numbering =
     (case blockToMarkdownOld convertTable block indentLevel numbering of
        (md, numbering') \<Rightarrow>
          (case blocksToMarkdownOld convertTable blocks indentLevel numbering' of
             (rest, numbering'') \<Rightarrow> (md @ rest, numbering'')))"

definition old_block :: "string \<Rightarrow> string \<Rightarrow> page_block" where
  "old_block t s = PageBlock t (Some [s]) False []"

section \<open>Remote client (NotionAPIService, Validator)\<close>

subsection \<open>JSON values\<close>

text \<open>
  What the service answers is JSON, and the code reads it as \<open>any\<close>. A property that
  is not there reads as \<open>undefined\<close>: \<open>None\<close> of \<open>json option\<close>. Numbers are kept
  as integers (the code modelled reads none), and an object as its keys and values, each
  key once.
\<close>

datatype json =
    JNull
  | JBool bool
  | JNum int
  | JStr string
  | JArr "json list"
  | JObj "(string \<times> json) list"

text \<open>The truthiness of a value, as \<open>if\<close>, \<open>&&\<close> and \<open>while\<close> test it.\<close>

fun js_truthy :: "json option \<Rightarrow> bool" where
  "js_truthy None = False"
| "js_truthy (Some JNull) = False"
| "js_truthy (Some (JBool b)) = b"
| "js_truthy (Some (JNum n)) = (n \<noteq> 0)"
| "js_truthy (Some (JStr s)) = (s \<noteq> [])"
| "js_truthy (Some (JArr xs)) = True"
| "js_truthy (Some (JObj fs)) = True"

text \<open>
  \<open>value?.key\<close>, and \<open>value.key\<close> for a value that is neither \<open>null\<close> nor
  \<open>undefined\<close>: of the keys the code reads (\<open>results\<close>, \<open>next_cursor\<close>, \<open>id\<close>,
  \<open>properties\<close>, \<open>Name\<close>, \<open>title\<close>), only an object has any.
\<close>

fun js_get :: "json option \<Rightarrow> string \<Rightarrow> json option" where
  "js_get (Some (JObj fs)) k = map_of fs k"
| "js_get v k = None"

fun isArray :: "json option \<Rightarrow> bool" where
  "isArray (Some (JArr xs)) = True"
| "isArray v = False"

text \<open>\<open>Validator.isValidNotionPage\<close>\<close>

definition isValidNotionPage :: "json \<Rightarrow> bool" where
  "isValidNotionPage page \<longleftrightarrow>
     js_truthy (Some page) \<and>
     js_truthy (js_get (Some page) ''id'') \<and>
     js_truthy (js_get (Some page) ''properties'') \<and>
     js_truthy (js_get (js_get (Some page) ''properties'') ''Name'') \<and>
     js_truthy (js_get (js_get (js_get (Some page) ''properties'') ''Name'') ''title'') \<and>
     isArray (js_get (js_get (js_get (Some page) ''properties'') ''Name'') ''title'')"

subsection \<open>Requests\<close>

text \<open>
  The requests of the methods modelled, by what varies in them: the id in the URL, the
  cursor sent (none when the code leaves it out) and the children appended.
\<close>

datatype request =
    QueryDatabase string "json option"
  | GetChildren string "json option"
  | DeleteBlock "json option"
  | AppendChildren string "json list"

record response =
  http_status :: int
  body :: "json option"

text \<open>\<open>requestUrl\<close> of the platform: a response, or an error thrown.\<close>

type_synonym transport = "request \<Rightarrow> js_error + response"

text \<open>
  \<open>makeRequest\<close>: throws for a status of 400 or more, and hands on what the transport
  throws. (\<open>Validator.isValidNotionResponse\<close> holds of every response with a status.)
\<close>

definition makeRequest :: "transport \<Rightarrow> request \<Rightarrow> js_error + response" where
  "makeRequest requestUrl req =
     (case requestUrl req of
        Inl e \<Rightarrow> Inl e
      | Inr r \<Rightarrow> if http_status r \<ge> 400 then Inl (RequestFailed (http_status r)) else Inr r)"

text \<open>The cursor as a request carries it: left out unless it is truthy.\<close>

definition sent :: "json option \<Rightarrow> json option" where
  "sent cursor = (if js_truthy cursor then cursor else None)"

text \<open>\<open>array.concat(value)\<close>: the elements of an array, any other value as one element.\<close>

fun spread :: "json \<Rightarrow> json list" where
  "spread (JArr xs) = xs"
| "spread v = [v]"

text \<open>
  The \<open>do ... while (cursor)\<close> loop of \<open>queryDatabase\<close>, from a cursor and the pages
  gathered so far. It ends when the service sends no cursor; \<open>None\<close> is a loop that
  never ends.
\<close>

partial_function (option) queryLoop ::
  "transport \<Rightarrow> string \<Rightarrow> json option \<Rightarrow> json list \<Rightarrow> (js_error + json list) option" where
  "queryLoop requestUrl databaseId cursor allPages =
     (case makeRequest requestUrl (QueryDatabase databaseId (sent cursor)) of
        Inl e \<Rightarrow> Some (Inl e)
      | Inr r \<Rightarrow>
          if http_status r = 200 \<and> js_truthy (js_get (body r) ''results'')
          then
            (case js_get (body r) ''results'' of
               Some (JArr results) \<Rightarrow>
                 let allPages' = allPages @ filter isValidNotionPage results;
                     cursor' = js_get (body r) ''next_cursor''
                 in if js_truthy cursor' then queryLoop requestUrl databaseId cursor' allPages'
                    else Some (Inr allPages')
             | _ \<Rightarrow> Some (Inl TypeError))
          else Some (Inl (Failed ''query database'' (http_status r))))"

definition queryDatabase :: "transport \<Rightarrow> string \<Rightarrow> (js_error + json list) option" where
  "queryDatabase requestUrl databaseId = queryLoop requestUrl databaseId None []"

text \<open>The loop of \<open>getPageBlocks\<close>.\<close>

partial_function (option) blocksLoop ::
  "transport \<Rightarrow> string \<Rightarrow> json option \<Rightarrow> json list \<Rightarrow> (js_error + json list) option" where
  "blocksLoop requestUrl pageId cursor allBlocks =
     (case makeRequest requestUrl (GetChildren pageId (sent cursor)) of
        Inl e \<Rightarrow> Some (Inl e)
      | Inr r \<Rightarrow>
          if http_status r = 200 \<and> js_truthy (js_get (body r) ''results'')
          then
            (let allBlocks' = allBlocks @ spread (the (js_get (body r) ''results''));
                 cursor' = js_get (body r) ''next_cursor''
             in if js_truthy cursor' then blocksLoop requestUrl pageId cursor' allBlocks'
                else Some (Inr allBlocks'))
          else Some (Inl (Failed ''get page blocks'' (http_status r))))"

definition getPageBlocks :: "transport \<Rightarrow> string \<Rightarrow> (js_error + json list) option" where
  "getPageBlocks requestUrl pageId = blocksLoop requestUrl pageId None []"

text \<open>
  The methods below return nothing; the model returns the requests they have handed to
  \<open>makeRequest\<close>, in order, and how they ended.
\<close>

text \<open>\<open>array.slice(start, stop)\<close> for \<open>0 \<le> start \<le> stop\<close>.\<close>

definition slice :: "'a list \<Rightarrow> nat \<Rightarrow> nat \<Rightarrow> 'a list" where
  "slice xs start stop = take (stop - start) (drop start xs)"

text \<open>The \<open>for\<close> loop of \<open>appendBlocks\<close>, from index \<open>i\<close>; \<open>batchSize\<close> is 10.\<close>

function appendFrom ::
  "transport \<Rightarrow> string \<Rightarrow> json list \<Rightarrow> nat \<Rightarrow> request list \<times> (js_error + unit)" where
  "appendFrom requestUrl parentId blocks i =
     (if i < length blocks
      then
        (let batch = slice blocks i (i + 10); req = AppendChildren parentId batch
         in case makeRequest requestUrl req of
              Inl e \<Rightarrow> ([req], Inl e)
            | Inr r \<Rightarrow>
                if http_status r \<noteq> 200 then ([req], Inl (Failed ''append blocks'' (http_status r)))
                else
                  (case appendFrom requestUrl parentId blocks (i + 10) of
                     (reqs, res) \<Rightarrow> (req # reqs, res)))
      else ([], Inr ()))"
  by pat_completeness auto
termination
  by (relation "measure (\<lambda>(requestUrl, parentId, blocks, i). length blocks - i)") auto

definition appendBlocks :: "transport \<Rightarrow> string \<Rightarrow> json list \<Rightarrow> request list \<times> (js_error + unit)" where
  "appendBlocks requestUrl parentId blocks = appendFrom requestUrl parentId blocks 0"

text \<open>
  \<open>deleteBlock\<close> for each block of a list, as the \<open>for ... of\<close> loop of
  \<open>clearPageBlocks\<close> calls it. \<open>block.id\<close> of \<open>null\<close> throws.
\<close>

fun deleteEach :: "transport \<Rightarrow> json list \<Rightarrow> request list \<times> (js_error + unit)" where
  "deleteEach requestUrl [] = ([], Inr ())"
| "deleteEach requestUrl (JNull # blocks) = ([], Inl TypeError)"
| "deleteEach requestUrl (block # blocks) =
     (let req = DeleteBlock (js_get (Some block) ''id'')
      in case makeRequest requestUrl req of
           Inl e \<Rightarrow> ([req], Inl e)
         | Inr r \<Rightarrow>
             if http_status r \<noteq> 200 then ([req], Inl (Failed ''delete block'' (http_status r)))
             else (case deleteEach requestUrl blocks of (reqs, res) \<Rightarrow> (req # reqs, res)))"

text \<open>\<open>clearPageBlocks\<close>: all the children first, then the deletions, last child first.\<close>

definition clearPageBlocks ::
  "transport \<Rightarrow> string \<Rightarrow> (request list \<times> (js_error + unit)) option" where
  "clearPageBlocks requestUrl pageId =
     (case getPageBlocks requestUrl pageId of
        None \<Rightarrow> None
      | Some (Inl e) \<Rightarrow> Some ([], Inl e)
      | Some (Inr blocks) \<Rightarrow> Some (deleteEach requestUrl (rev blocks)))"

subsection \<open>What the service holds\<close>

text \<open>
  The answers of the service to a cursor and the cursors that follow it: each with status
  200 and results, each but the last with a cursor for the next.
\<close>

fun pagesFrom :: "transport \<Rightarrow> (json option \<Rightarrow> request) \<Rightarrow> json option \<Rightarrow> response list \<Rightarrow> bool" where
  "pagesFrom requestUrl ask cursor [] = False"
| "pagesFrom requestUrl ask cursor (r # rs) =
     (requestUrl (ask (sent cursor)) = Inr r \<and> http_status r = 200 \<and>
      js_truthy (js_get (body r) ''results'') \<and>
      (if rs = [] then \<not> js_truthy (js_get (body r) ''next_cursor'')
       else js_truthy (js_get (body r) ''next_cursor'') \<and>
            pagesFrom requestUrl ask (js_get (body r) ''next_cursor'') rs))"

definition resultsOf :: "response \<Rightarrow> json list" where
  "resultsOf r = spread (the (js_get (body r) ''results''))"

subsection \<open>A sample service\<close>

definition page_json :: "string \<Rightarrow> string \<Rightarrow> json" where
  "page_json i title =
     JObj [(''id'', JStr i),
           (''properties'', JObj [(''Name'', JObj [(''title'',
              JArr [JObj [(''text'', JObj [(''content'', JStr title)])]])])])]"

definition block_json :: "string \<Rightarrow> json" where
  "block_json i = JObj [(''id'', JStr i), (''type'', JStr ''divider'')]"

definition answer :: "json list \<Rightarrow> json \<Rightarrow> response" where
  "answer results next_cursor =
     \<lparr>http_status = 200,
      body = Some (JObj [(''results'', JArr results), (''next_cursor'', next_cursor)])\<rparr>"

text \<open>
  A database of three results on two pages, the second one without properties, and a page
  of three blocks on two pages; every deletion and every append succeeds.
\<close>

definition sample_service :: transport where
  "sample_service req =
     (case req of
        QueryDatabase i None \<Rightarrow>
          Inr (answer [page_json ''p1'' ''a.md:a'', JObj [(''id'', JStr ''p2'')]] (JStr ''c1''))
      | QueryDatabase i (Some c) \<Rightarrow> Inr (answer [page_json ''p3'' ''b.md:b''] JNull)
      | GetChildren i None \<Rightarrow> Inr (answer [block_json ''b1'', block_json ''b2''] (JStr ''c1''))
      | GetChildren i (Some c) \<Rightarrow> Inr (answer [block_json ''b3''] JNull)
      | DeleteBlock i \<Rightarrow> Inr (answer [] JNull)
      | AppendChildren i blocks \<Rightarrow> Inr (answer [] JNull))"

section \<open>Titles and the download of a page (UploadService, DownloadService)\<close>

text \<open>
  The title \<open>uploadFile\<close> gives a page: \<^verbatim>\<open>`${file.path}:${file.basename}`\<close>.
\<close>

definition uploadTitle :: "string \<Rightarrow> string \<Rightarrow> string" where
  "uploadTitle path basename = path @ '':'' @ basename"

text \<open>\<open>s.lastIndexOf(c)\<close> for a character: -1 when it does not occur.\<close>

definition lastIndexOf :: "string \<Rightarrow> char \<Rightarrow> int" where
  "lastIndexOf s c =
     (if c \<in> set s then int (length s - 1 - length (takeWhile (\<lambda>x. x \<noteq> c) (rev s))) else - 1)"

text \<open>
  \<open>s.substring(start, stop)\<close> and \<open>s.substring(start)\<close>: an index below 0 counts as 0,
  one beyond the end as the length, and the two are put in order.
\<close>

definition substring :: "string \<Rightarrow> int \<Rightarrow> int \<Rightarrow> string" where
  "substring s start stop =
     (let a = min (nat start) (length s); b = min (nat stop) (length s)
      in take (max a b - min a b) (drop (min a b) s))"

definition substringFrom :: "string \<Rightarrow> int \<Rightarrow> string" where
  "substringFrom s start = drop (min (nat start) (length s)) s"

text \<open>
  The two parts of a title as \<open>downloadPage\<close> takes them, around the last colon; \<open>None\<close>
  when \<open>separatorIndex === -1\<close>.
\<close>

definition splitTitle :: "string \<Rightarrow> (string \<times> string) option" where
  "splitTitle fullTitle =
     (let separatorIndex = lastIndexOf fullTitle CHR '':''
      in if separatorIndex = - 1 then None
         else Some (substring fullTitle 0 separatorIndex,
                    substringFrom fullTitle (separatorIndex + 1)))"

text \<open>\<open>Validator.validateFilePath\<close>: none of \<^verbatim>\<open><>:"|?*\<close>, and the ending \<open>.md\<close>.\<close>

definition endsWith :: "string \<Rightarrow> string \<Rightarrow> bool" where
  "endsWith s searchString \<longleftrightarrow>
     length searchString \<le> length s \<and> drop (length s - length searchString) s = searchString"

definition invalidChars :: "char list" where
  "invalidChars = [CHR ''<'', CHR ''>'', CHR '':'', CHR 0x22, CHR ''|'', CHR ''?'', CHR ''*'']"

definition validateFilePath :: "string \<Rightarrow> bool" where
  "validateFilePath filePath \<longleftrightarrow>
     \<not> list_ex (\<lambda>c. c \<in> set invalidChars) filePath \<and> endsWith filePath ''.md''"

text \<open>
  \<open>interface NotionPage\<close>: the id and, for each item of \<open>properties.Name.title\<close>, its
  \<open>text?.content\<close>.
\<close>

record NotionPage =
  page_id :: string
  name_title :: "string option list"

datatype result_kind = create | update | download

text \<open>\<open>interface SyncResult\<close>; \<open>failure\<close> is the error whose message \<open>error\<close> holds.\<close>

record SyncResult =
  success :: bool
  fileName :: string
  failure :: "js_error option"
  notionId :: "string option"
  kind :: result_kind

text \<open>
  What \<open>downloadPage\<close> calls outside the code modelled here, over a vault of any kind:
  the fetch of the page's blocks, the platform's \<open>stringifyYaml\<close> and \<open>normalizePath\<close>,
  the clock, and the vault's \<open>adapter.exists\<close>, \<open>adapter.mkdir\<close>,
  \<open>getAbstractFileByPath\<close> (is there a file at the path), \<open>modify\<close> and \<open>create\<close>.
\<close>

record 'v host =
  fetchBlocks :: "string \<Rightarrow> js_error + NotionBlock option list"
  stringifyYaml :: "(string \<times> string) list \<Rightarrow> string"
  nowISO :: string
  normalizePath :: "string \<Rightarrow> string"
  adapterExists :: "'v \<Rightarrow> string \<Rightarrow> js_error + bool"
  adapterMkdir :: "'v \<Rightarrow> string \<Rightarrow> js_error + 'v"
  fileAt :: "'v \<Rightarrow> string \<Rightarrow> bool"
  vaultModify :: "'v \<Rightarrow> string \<Rightarrow> string \<Rightarrow> js_error + 'v"
  vaultCreate :: "'v \<Rightarrow> string \<Rightarrow> string \<Rightarrow> js_error + 'v"

text \<open>
  The white space of \<open>s.trim()\<close> and of \<^verbatim>\<open>\s\<close> in a regular expression, among the
  characters with a code below 256, which are the characters of a \<open>string\<close> here: the
  tabulator, the line feed, the vertical tabulator, the form feed, the carriage return,
  the space and the no-break space.
\<close>

definition isSpace :: "char \<Rightarrow> bool" where
  "isSpace c \<longleftrightarrow>
     c \<in> set [CHR '' '', CHR 0x09, CHR 0x0A, CHR 0x0B, CHR 0x0C, CHR 0x0D, CHR 0xA0]"

text \<open>\<open>s.trim()\<close>\<close>

definition trim :: "string \<Rightarrow> string" where
  "trim s = rev (dropWhile isSpace (rev (dropWhile isSpace s)))"

text \<open>The result of the \<open>catch\<close> of \<open>downloadPage\<close>.\<close>

definition failed :: "js_error \<Rightarrow> SyncResult" where
  "failed e = \<lparr>success = False, fileName = ''unknown'', failure = Some e, notionId = None,
     kind = download\<rparr>"

text \<open>
  The end of \<open>downloadPage\<close>: the directory is made when it is named and not there, and
  the file is modified when there is one and created otherwise.
\<close>

definition writeFile :: "'v host \<Rightarrow> string \<Rightarrow> string \<Rightarrow> 'v \<Rightarrow> js_error option \<times> 'v" where
  "writeFile h normalizedPath fileContent v =
     (if fileAt h v normalizedPath
      then (case vaultModify h v normalizedPath fileContent of
              Inl e \<Rightarrow> (Some e, v) | Inr v' \<Rightarrow> (None, v'))
      else (case vaultCreate h v normalizedPath fileContent of
              Inl e \<Rightarrow> (Some e, v) | Inr v' \<Rightarrow> (None, v')))"

definition ensureDirectory :: "'v host \<Rightarrow> string \<Rightarrow> 'v \<Rightarrow> js_error option \<times> 'v" where
  "ensureDirectory h dirPath v =
     (if dirPath = [] then (None, v)
      else (case adapterExists h v dirPath of
              Inl e \<Rightarrow> (Some e, v)
            | Inr True \<Rightarrow> (None, v)
            | Inr False \<Rightarrow>
                (case adapterMkdir h v dirPath of Inl e \<Rightarrow> (Some e, v) | Inr v' \<Rightarrow> (None, v'))))"

text \<open>\<open>downloadPage\<close>: the result, and the vault afterwards.\<close>

definition downloadPage :: "'v host \<Rightarrow> NotionPage \<Rightarrow> 'v \<Rightarrow> SyncResult \<times> 'v" where
  "downloadPage h page v =
     (case name_title page of
        [] \<Rightarrow> (failed (Thrown ''Page has no valid title''), v)
      | first # others \<Rightarrow>
          if \<not> truthy first then (failed (Thrown ''Page has no valid title''), v)
          else
            (case splitTitle (the first) of
               None \<Rightarrow> (failed (Thrown ''Page title does not contain path separator''), v)
             | Some (filePath, name) \<Rightarrow>
                 if \<not> validateFilePath filePath
                 then (failed (Thrown (''Invalid file path: '' @ filePath)), v)
                 else
                   (case fetchBlocks h (page_id page) of
                      Inl e \<Rightarrow> (failed e, v)
                    | Inr blocks \<Rightarrow>
                        (case convertNotionToMarkdown blocks of
                           Inl e \<Rightarrow> (failed e, v)
                         | Inr markdown \<Rightarrow>
                             let frontmatter =
                                   [(''notionID'', page_id page),
                                    (''link'', ''https://www.notion.so/'' @
                                       filter (\<lambda>c. c \<noteq> CHR ''-'') (page_id page)),
                                    (''lastSync'', nowISO h),
                                    (''filePath'', filePath)];
                                 fileContent = ''---\<newline>'' @ trim (stringifyYaml h frontmatter) @
                                    ''\<newline>---\<newline>'' @ markdown;
                                 normalizedPath = normalizePath h filePath;
                                 dirPath = substring normalizedPath 0
                                    (lastIndexOf normalizedPath CHR ''/'')
                             in (case ensureDirectory h dirPath v of
                                   (Some e, v1) \<Rightarrow> (failed e, v1)
                                 | (None, v1) \<Rightarrow>
                                     (case writeFile h normalizedPath fileContent v1 of
                                        (Some e, v2) \<Rightarrow> (failed e, v2)
                                      | (None, v2) \<Rightarrow>
                                          (\<lparr>success = True, fileName = name, failure = None,
                                            notionId = Some (page_id page),
                                            kind = download\<rparr>, v2)))))))"

subsection \<open>A sample host\<close>

text \<open>A vault of files by path; every directory is there; the page has no blocks.\<close>

definition sample_host :: "(string \<times> string) list host" where
  "sample_host =
     \<lparr>fetchBlocks = (\<lambda>i. Inr []),
      stringifyYaml = (\<lambda>fields. concat (map (\<lambda>(k, x). k @ '': '' @ x @ ''\<newline>'') fields)),
      nowISO = ''2024-05-25T10:00:00.000Z'',
      normalizePath = (\<lambda>p. p),
      adapterExists = (\<lambda>v p. Inr True),
      adapterMkdir = (\<lambda>v p. Inr v),
      fileAt = (\<lambda>v p. map_of v p \<noteq> None),
      vaultModify = (\<lambda>v p text. Inr ((p, text) # v)),
      vaultCreate = (\<lambda>v p text. Inr ((p, text) # v))\<rparr>"

section \<open>Front matter (MarkdownConverter)\<close>

subsection \<open>Strings\<close>




subsection \<open>Front matter\<close>






text \<open>A value of the front matter: a string, or the array of a \<^verbatim>\<open>[a, b]\<close> value.\<close>

datatype yaml_value = YStr string | YArr "string list"

type_synonym frontmatter = "string \<Rightarrow> yaml_value option"






section \<open>The upload pass (ObsidotionPlugin, main.ts)\<close>

subsection \<open>Content hash\<close>




subsection \<open>The vault and the service\<close>






subsection \<open>The pass\<close>












subsection \<open>A sample vault and plugin\<close>






section \<open>Properties of the sync queue\<close>

lemma failures_append: "failures (tr @ tr') i = failures tr i + failures tr' i"
  by (simp add: failures_def)

lemma failures_Nil: "failures [] i = 0"
  by (simp add: failures_def)

lemma failures_Cons: "failures (a # tr) i = (if counted i a then 1 else 0) + failures tr i"
  by (simp add: failures_def)

lemma succeeded_append: "succeeded (tr @ tr') = succeeded tr @ succeeded tr'"
  by (induction tr rule: succeeded.induct) simp_all

lemma reported_append: "reported (tr @ tr') = reported tr @ reported tr'"
  by (induction tr rule: reported.induct) simp_all

lemma unclassified_append: "unclassified (tr @ tr') = unclassified tr @ unclassified tr'"
  by (induction tr rule: unclassified.induct) (simp_all split: sum.splits)

lemma startings_append: "startings (tr @ tr') = startings tr @ startings tr'"
  by (induction tr rule: startings.induct) simp_all

lemma endings_append: "endings (tr @ tr') = endings tr @ endings tr'"
  by (induction tr rule: endings.induct) simp_all

lemma finished_append: "finished (tr @ tr') = finished tr + finished tr'"
  by (simp add: finished_def succeeded_append reported_append unclassified_append)

lemma finished_Nil: "finished [] = {#}"
  by (simp add: finished_def)

lemma finished_Cons:
  "finished (a # tr) =
     (case a of
        Started operation \<Rightarrow> {#}
      | Reported operation \<Rightarrow> {#op_id operation#}
      | Ended operation Success \<Rightarrow> {#op_id operation#}
      | Ended operation (Failure error) \<Rightarrow>
          (case isNetworkError error of Inl e \<Rightarrow> {#op_id operation#} | Inr network \<Rightarrow> {#})) +
     finished tr"
  by (simp add: finished_def split: action.splits outcome.splits sum.splits)

lemma granted_append: "granted (es @ es') = granted es @ granted es'"
  by (induction es rule: granted.induct) simp_all

lemma within_budget_snoc:
  "within_budget (tr @ [a]) \<longleftrightarrow> within_budget tr \<and> in_budget tr a"
  by (auto simp: within_budget_def list_all_iff nth_append)

lemma within_budget_snoc2:
  "within_budget (tr @ [a, b]) \<longleftrightarrow>
     within_budget tr \<and> in_budget tr a \<and> in_budget (tr @ [a]) b"
  using within_budget_snoc [of "tr @ [a]" b] within_budget_snoc [of tr a] by simp

lemma within_budget_Nil: "within_budget []"
  by (simp add: within_budget_def)

lemma ids_simps:
  "ids [] = {#}" "ids (operation # operations) = add_mset (op_id operation) (ids operations)"
  "ids (xs @ ys) = ids xs + ids ys"
  by (simp_all add: ids_def)

lemma mset_without:
  "k < length xs \<Longrightarrow> mset xs = add_mset (xs ! k) (mset (take k xs @ drop (Suc k) xs))"
  by (subst id_take_nth_drop [of k xs]) simp_all

lemma ids_without:
  "k < length xs \<Longrightarrow> ids xs = add_mset (op_id (xs ! k)) (ids (take k xs @ drop (Suc k) xs))"
  unfolding ids_def mset_map
  using arg_cong [OF mset_without, of k xs "image_mset op_id"] by simp

lemma set_without:
  "k < length xs \<Longrightarrow> set xs = insert (xs ! k) (set (take k xs @ drop (Suc k) xs))"
  using arg_cong [OF mset_without, of k xs set_mset] by simp

lemma once:
  assumes "Q + add_mset i A + F = mset [0..<n]"
  shows "i \<notin># Q" and "i \<notin># A" and "i \<notin># F" and "i < n"
proof -
  have "distinct [0..<n]" by simp
  then have "count (mset [0..<n]) i \<le> 1"
    unfolding distinct_count_atmost_1 by simp
  then have "count (Q + add_mset i A + F) i \<le> 1"
    unfolding assms .
  then have c: "count Q i = 0 \<and> count A i = 0 \<and> count F i = 0"
    by simp
  then show "i \<notin># Q" "i \<notin># A" "i \<notin># F"
    by (simp_all add: count_eq_zero_iff)
  have "i \<in># Q + add_mset i A + F" by simp
  then have "i \<in># mset [0..<n]" unfolding assms .
  then show "i < n" by simp
qed


lemmas trace_simps =
  failures_append failures_Cons failures_Nil finished_append finished_Cons finished_Nil
  within_budget_snoc within_budget_snoc2
  startings_append endings_append succeeded_append reported_append unclassified_append
  ids_simps

lemma inv_status [simp]:
  "queue_inv (s\<lparr>status := x\<rparr>) = queue_inv s"
  "queue_inv (s\<lparr>isOnline := b\<rparr>) = queue_inv s"
  by (simp_all add: queue_inv_def)

lemma inv_afterLoop [simp]: "queue_inv (afterLoop s) = queue_inv s"
  by (simp add: afterLoop_def)

lemma inv_constructed: "queue_inv constructed"
  by (simp add: queue_inv_def constructed_def ids_simps finished_def failures_Nil within_budget_Nil)

lemma inv_whileLoop:
  assumes "queue_inv s"
  shows "queue_inv (suspend (whileLoop s))"
proof (cases "syncQueue s")
  case Nil
  with assms show ?thesis by (simp add: whileLoop_def)
next
  case (Cons operation rest)
  show ?thesis
  proof (cases "isOnline s")
    case False
    with Cons assms show ?thesis by (simp add: whileLoop_def)
  next
    case True
    with Cons assms show ?thesis
      by (auto simp: whileLoop_def executeOperation_def queue_inv_def trace_simps)
  qed
qed

lemma inv_processQueue:
  "queue_inv s \<Longrightarrow> queue_inv (suspend (processQueue s))"
  using inv_whileLoop [of "s\<lparr>status := syncing\<rparr>"] by (simp add: processQueue_def)


lemma ids_apart: "i \<notin># ids xs \<Longrightarrow> x \<in> set xs \<Longrightarrow> op_id x \<noteq> i"
  by (auto simp: ids_def)

lemma inv_tryCatch:
  assumes inv: "queue_inv s" and k: "k < length (awaiting s)"
  shows "queue_inv (snd (tryCatch (awaiting s ! k) out
           (s\<lparr>awaiting := take k (awaiting s) @ drop (Suc k) (awaiting s)\<rparr>)))"
proof -
  define operation where "operation = awaiting s ! k"
  define others where "others = take k (awaiting s) @ drop (Suc k) (awaiting s)"
  have a_ids: "ids (awaiting s) = add_mset (op_id operation) (ids others)"
    and a_mset: "mset (awaiting s) = add_mset operation (mset others)"
    and a_set: "set (awaiting s) = insert operation (set others)"
    using k by (simp_all add: operation_def others_def ids_without mset_without set_without
        del: mset_append set_append)
  from inv have sum: "ids (syncQueue s) + add_mset (op_id operation) (ids others) +
      finished (trace s) = mset [0..<created s]"
    by (simp add: queue_inv_def a_ids)
  note fresh = once [OF sum]
  have apart: "\<forall>x \<in> set (syncQueue s) \<union> set others. op_id x \<noteq> op_id operation"
    using fresh(1,2) by (auto dest: ids_apart)
  from inv have mine: "retries operation < 3"
    "failures (trace s) (op_id operation) = retries operation"
    by (simp_all add: queue_inv_def a_set)
  from inv have rest: "\<forall>x \<in> set (syncQueue s) \<union> set others.
      retries x < 3 \<and> failures (trace s) (op_id x) = retries x"
    by (simp add: queue_inv_def a_set)
  from inv have rep: "\<forall>i. failures (trace s) i \<le> 3 \<and>
      count_list (reported (trace s)) i = (if failures (trace s) i = 3 then 1 else 0)"
    and beyond: "\<forall>i. created s \<le> i \<longrightarrow> failures (trace s) i = 0"
    and budget: "within_budget (trace s)"
    and exec: "mset (startings (trace s)) =
      mset (map fst (endings (trace s))) + add_mset operation (mset others)"
    by (simp_all add: queue_inv_def a_mset)
  have norep: "count_list (reported (trace s)) (op_id operation) = 0"
    using rep mine by auto
  show ?thesis
  proof (cases out)
    case Success
    show ?thesis
      unfolding operation_def [symmetric] others_def [symmetric]
      using sum rest rep beyond budget exec
      by (simp add: Success tryCatch_def settled_def queue_inv_def trace_simps)
  next
    case (Failure error)
    show ?thesis
    proof (cases "isNetworkError error")
      case (Inl e)
      show ?thesis
        unfolding operation_def [symmetric] others_def [symmetric]
        using sum rest rep beyond budget exec
        by (simp add: Failure Inl tryCatch_def settled_def queue_inv_def trace_simps)
    next
      case (Inr network)
      show ?thesis
      proof (cases network)
        case True
        show ?thesis
          unfolding operation_def [symmetric] others_def [symmetric]
          using sum rest rep beyond budget exec mine
          by (simp add: Failure Inr True tryCatch_def settled_def queue_inv_def trace_simps
             )
      next
        case False
        show ?thesis
          unfolding operation_def [symmetric] others_def [symmetric]
          using sum rest rep beyond budget exec mine apart norep fresh(4)
          by (auto simp: Failure Inr False tryCatch_def settled_def queue_inv_def trace_simps
              Let_def)
      qed
    qed
  qed
qed


lemma inv_resumed:
  assumes "queue_inv s" and "k < length (awaiting s)"
  shows "queue_inv (suspend (resumed (awaiting s ! k) out
           (s\<lparr>awaiting := take k (awaiting s) @ drop (Suc k) (awaiting s)\<rparr>)))"
proof -
  let ?r = "tryCatch (awaiting s ! k) out
           (s\<lparr>awaiting := take k (awaiting s) @ drop (Suc k) (awaiting s)\<rparr>)"
  have "queue_inv (snd ?r)" using assms by (rule inv_tryCatch)
  then show ?thesis
    by (cases ?r; cases "fst ?r") (simp_all add: resumed_def inv_whileLoop)
qed

lemma inv_queueOperation:
  assumes "queue_inv s"
  shows "queue_inv (queueOperation t f now s)"
proof -
  let ?operation = "\<lparr>op_id = created s, optype = t, op_file = f, timestamp = now, retries = 0\<rparr>"
  let ?s1 = "s\<lparr>syncQueue := syncQueue s @ [?operation], created := Suc (created s)\<rparr>"
  have "queue_inv ?s1"
    using assms by (auto simp: queue_inv_def ids_simps)
  then show ?thesis
    by (simp add: queueOperation_def Let_def inv_processQueue)
qed

lemma inv_step: "queue_inv s \<Longrightarrow> queue_inv (step e s)"
  by (cases e) (simp_all add: inv_queueOperation onlineHandler_def offlineHandler_def
      inv_processQueue inv_resumed)

lemma inv_run: "queue_inv s \<Longrightarrow> queue_inv (run es s)"
  unfolding run_def by (induction es arbitrary: s) (simp_all add: inv_step)


subsection \<open>Returning, and going on\<close>

lemma whileLoop_returned:
  "fst (whileLoop s) = Returned \<Longrightarrow>
     syncQueue (snd (whileLoop s)) = [] \<or> \<not> isOnline (snd (whileLoop s))"
  by (auto simp: whileLoop_def afterLoop_def split: list.splits if_splits)

lemma processQueue_returned:
  "fst (processQueue s) = Returned \<Longrightarrow>
     syncQueue (snd (processQueue s)) = [] \<or> \<not> isOnline (snd (processQueue s))"
  using whileLoop_returned [of "s\<lparr>status := syncing\<rparr>"]
  by (auto simp: processQueue_def)

lemma resumed_returned:
  "fst (resumed operation out s) = Returned \<Longrightarrow>
     syncQueue (snd (resumed operation out s)) = [] \<or> \<not> isOnline (snd (resumed operation out s))"
  by (cases "tryCatch operation out s"; cases "fst (tryCatch operation out s)")
    (auto simp: resumed_def whileLoop_returned tryCatch_def afterLoop_def Let_def
      split: outcome.splits sum.splits if_splits)

lemma suspend_whileLoop_live: "live (suspend (whileLoop s))"
  by (auto simp: live_def whileLoop_def afterLoop_def executeOperation_def split: list.splits)

lemma suspend_processQueue_live: "live (suspend (processQueue s))"
  using suspend_whileLoop_live [of "s\<lparr>status := syncing\<rparr>"]
  by (auto simp: processQueue_def live_def)

lemma tryCatch_control:
  "fst (tryCatch operation out s) = Throw e \<Longrightarrow>
     \<exists>error. out = Failure error \<and> message error = None"
  by (auto simp: tryCatch_def isNetworkError_def Let_def split: outcome.splits sum.splits
      if_splits option.splits)

lemma whileLoop_not_rejected: "fst (whileLoop s) \<noteq> Rejected e"
  by (simp add: whileLoop_def split: list.splits)

lemma resumed_rejected:
  assumes "fst (resumed operation out s) = Rejected e"
  shows "\<exists>error. out = Failure error \<and> message error = None"
proof (cases "tryCatch operation out s")
  case (Pair c s1)
  show ?thesis
  proof (cases c)
    case Continue
    with Pair assms whileLoop_not_rejected [of s1 e] show ?thesis by (simp add: resumed_def)
  next
    case Break
    with Pair assms show ?thesis by (simp add: resumed_def)
  next
    case (Throw e')
    with Pair tryCatch_control [of operation out s e'] show ?thesis by simp
  qed
qed

lemma tryCatch_break:
  "fst (tryCatch operation out s) = Break \<Longrightarrow> \<not> isOnline (snd (tryCatch operation out s))"
  by (auto simp: tryCatch_def Let_def split: outcome.splits sum.splits if_splits)

lemma resumed_live:
  assumes "with_message (Settled k out)"
  shows "live (suspend (resumed operation out s))"
proof (cases "tryCatch operation out s")
  case (Pair c s1)
  show ?thesis
  proof (cases c)
    case Continue
    with Pair show ?thesis by (simp add: resumed_def suspend_whileLoop_live)
  next
    case Break
    with Pair tryCatch_break [of operation out s] show ?thesis
      by (simp add: resumed_def live_def afterLoop_def)
  next
    case (Throw e)
    with Pair tryCatch_control [of operation out s e] assms show ?thesis
      by auto
  qed
qed

lemma live_step: "with_message e \<Longrightarrow> live s \<Longrightarrow> live (step e s)"
proof (cases e)
  case (QueueOperation t f now)
  show ?thesis
  proof (cases "isOnline s")
    case True
    then show ?thesis
      by (simp add: QueueOperation queueOperation_def Let_def suspend_processQueue_live)
  next
    case False
    then show ?thesis
      by (simp add: QueueOperation queueOperation_def Let_def live_def)
  qed
next
  case Online
  then show ?thesis by (simp add: onlineHandler_def suspend_processQueue_live)
next
  case Offline
  then show ?thesis by (simp add: offlineHandler_def live_def)
next
  case (Settled k out)
  assume "with_message e" "live s"
  with Settled resumed_live [of k out] show ?thesis by simp
qed

lemma live_run: "list_all with_message es \<Longrightarrow> live s \<Longrightarrow> live (run es s)"
  unfolding run_def by (induction es arbitrary: s) (simp_all add: live_step)

subsection \<open>Nothing unclassified\<close>

lemma whileLoop_unclassified:
  "unclassified (trace (suspend (whileLoop s))) = unclassified (trace s)"
  by (auto simp: whileLoop_def afterLoop_def executeOperation_def unclassified_append
      split: list.splits)

lemma processQueue_unclassified:
  "unclassified (trace (suspend (processQueue s))) = unclassified (trace s)"
  using whileLoop_unclassified [of "s\<lparr>status := syncing\<rparr>"]
  by (simp add: processQueue_def)

lemma tryCatch_unclassified:
  "with_message (Settled k out) \<Longrightarrow>
     unclassified (trace (snd (tryCatch operation out s))) = unclassified (trace s)"
  by (auto simp: tryCatch_def settled_def isNetworkError_def unclassified_append Let_def
      split: outcome.splits sum.splits option.splits)

lemma resumed_unclassified:
  assumes "with_message (Settled k out)"
  shows "unclassified (trace (suspend (resumed operation out s))) = unclassified (trace s)"
  using tryCatch_unclassified [OF assms, of operation s]
  by (cases "tryCatch operation out s"; cases "fst (tryCatch operation out s)")
    (auto simp: resumed_def whileLoop_unclassified afterLoop_def)

lemma unclassified_step:
  "with_message e \<Longrightarrow> unclassified (trace (step e s)) = unclassified (trace s)"
proof (cases e)
  case (QueueOperation t f now)
  show ?thesis
    using processQueue_unclassified
      [of "s\<lparr>syncQueue := syncQueue s @
            [\<lparr>op_id = created s, optype = t, op_file = f, timestamp = now, retries = 0\<rparr>],
          created := Suc (created s)\<rparr>"]
    by (simp add: QueueOperation queueOperation_def Let_def)
next
  case Online
  show ?thesis
    using processQueue_unclassified [of "s\<lparr>isOnline := True, status := syncing\<rparr>"]
    by (simp add: Online onlineHandler_def)
next
  case Offline
  then show ?thesis by (simp add: offlineHandler_def)
next
  case (Settled k out)
  assume "with_message e"
  with Settled resumed_unclassified [of k out] show ?thesis by simp
qed

lemma unclassified_run:
  "list_all with_message es \<Longrightarrow> unclassified (trace (run es s)) = unclassified (trace s)"
  unfolding run_def by (induction es arbitrary: s) (simp_all add: unclassified_step)

subsection \<open>The outcomes are the world's\<close>

lemma whileLoop_trace:
  "\<exists>tr. trace (suspend (whileLoop s)) = trace s @ tr \<and> endings tr = []"
  by (auto simp: whileLoop_def afterLoop_def executeOperation_def split: list.splits)

lemma processQueue_trace:
  "\<exists>tr. trace (suspend (processQueue s)) = trace s @ tr \<and> endings tr = []"
  using whileLoop_trace [of "s\<lparr>status := syncing\<rparr>"]
  by (auto simp: processQueue_def)

lemma tryCatch_trace:
  "\<exists>tr. trace (snd (tryCatch operation out s)) = trace s @ tr \<and> endings tr = [(operation, out)]"
  by (auto simp: tryCatch_def settled_def Let_def split: outcome.splits sum.splits)

lemma resumed_trace:
  "\<exists>tr. trace (suspend (resumed operation out s)) = trace s @ tr \<and>
     endings tr = [(operation, out)]"
proof -
  obtain c s1 where r: "tryCatch operation out s = (c, s1)" by (cases "tryCatch operation out s")
  with tryCatch_trace [of operation out s] obtain tr
    where tr: "trace s1 = trace s @ tr" "endings tr = [(operation, out)]" by auto
  show ?thesis
  proof (cases c)
    case Continue
    from whileLoop_trace [of s1] obtain tr'
      where "trace (suspend (whileLoop s1)) = trace s1 @ tr'" "endings tr' = []" by blast
    with tr r Continue show ?thesis
      by (intro exI [of _ "tr @ tr'"]) (simp add: resumed_def endings_append)
  next
    case Break
    with tr r show ?thesis by (intro exI [of _ tr]) (simp add: resumed_def afterLoop_def)
  next
    case (Throw e)
    with tr r show ?thesis by (intro exI [of _ tr]) (simp add: resumed_def)
  qed
qed

lemma step_trace:
  "\<exists>tr. trace (step e s) = trace s @ tr \<and> subseq (map snd (endings tr)) (granted [e])"
proof (cases e)
  case (QueueOperation t f now)
  show ?thesis
    using processQueue_trace
      [of "s\<lparr>syncQueue := syncQueue s @
            [\<lparr>op_id = created s, optype = t, op_file = f, timestamp = now, retries = 0\<rparr>],
          created := Suc (created s)\<rparr>"]
    by (auto simp: QueueOperation queueOperation_def Let_def)
next
  case Online
  show ?thesis
    using processQueue_trace [of "s\<lparr>isOnline := True, status := syncing\<rparr>"]
    by (auto simp: Online onlineHandler_def)
next
  case Offline
  then show ?thesis by (simp add: offlineHandler_def)
next
  case (Settled k out)
  show ?thesis
  proof (cases "k < length (awaiting s)")
    case True
    from resumed_trace [of "awaiting s ! k" out
        "s\<lparr>awaiting := take k (awaiting s) @ drop (Suc k) (awaiting s)\<rparr>"]
    show ?thesis using True by (auto simp: Settled)
  next
    case False
    then show ?thesis by (simp add: Settled)
  qed
qed

lemma run_trace:
  "\<exists>tr. trace (run es s) = trace s @ tr \<and> subseq (map snd (endings tr)) (granted es)"
proof (induction es arbitrary: s)
  case Nil
  show ?case by (simp add: run_def)
next
  case (Cons e es)
  from step_trace [of e s] obtain tr1
    where t1: "trace (step e s) = trace s @ tr1" "subseq (map snd (endings tr1)) (granted [e])"
    by blast
  from Cons [of "step e s"] obtain tr2
    where t2: "trace (run es (step e s)) = trace (step e s) @ tr2"
      "subseq (map snd (endings tr2)) (granted es)"
    by blast
  have "granted (e # es) = granted [e] @ granted es"
    using granted_append [of "[e]" es] by simp
  with t1 t2 show ?case
    by (intro exI [of _ "tr1 @ tr2"])
      (simp add: run_def endings_append list_emb_append_mono)
qed

lemma created_step: "created (step e s) = created s + calls [e]"
proof -
  have w: "created (suspend (whileLoop s')) = created s'" for s'
    by (auto simp: whileLoop_def afterLoop_def executeOperation_def split: list.splits)
  have p: "created (suspend (processQueue s')) = created s'" for s'
    using w [of "s'\<lparr>status := syncing\<rparr>"] by (simp add: processQueue_def)
  have t: "created (snd (tryCatch operation out s')) = created s'" for operation out s'
    by (auto simp: tryCatch_def settled_def Let_def split: outcome.splits sum.splits)
  have r: "created (suspend (resumed operation out s')) = created s'" for operation out s'
    using t [of operation out s']
    by (cases "tryCatch operation out s'"; cases "fst (tryCatch operation out s')")
      (auto simp: resumed_def w afterLoop_def)
  show ?thesis
    by (cases e) (simp_all add: queueOperation_def onlineHandler_def offlineHandler_def p r Let_def)
qed

lemma calls_Cons: "calls (e # es) = calls [e] + calls es"
  by (cases e) simp_all

lemma created_run: "created (run es s) = created s + calls es"
proof (induction es arbitrary: s)
  case Nil
  show ?case by (simp add: run_def)
next
  case (Cons e es)
  from Cons [of "step e s"] show ?case
    using calls_Cons [of e es] by (simp add: run_def created_step)
qed

subsection \<open>Offline\<close>

lemma whileLoop_offline:
  "\<not> isOnline s \<Longrightarrow> whileLoop s = (Returned, afterLoop s)"
  by (simp add: whileLoop_def split: list.splits)

lemma tryCatch_offline:
  "\<not> isOnline s \<Longrightarrow>
     \<not> isOnline (snd (tryCatch operation out s)) \<and>
     startings (trace (snd (tryCatch operation out s))) = startings (trace s)"
  by (auto simp: tryCatch_def settled_def startings_append Let_def
      split: outcome.splits sum.splits)

lemma resumed_offline:
  assumes "\<not> isOnline s"
  shows "\<not> isOnline (suspend (resumed operation out s)) \<and>
     startings (trace (suspend (resumed operation out s))) = startings (trace s)"
  using tryCatch_offline [OF assms, of operation out]
  by (cases "tryCatch operation out s"; cases "fst (tryCatch operation out s)")
    (auto simp: resumed_def whileLoop_offline afterLoop_def)

lemma offline_step:
  assumes "\<not> isOnline s" and "e \<noteq> Online"
  shows "\<not> isOnline (step e s) \<and> startings (trace (step e s)) = startings (trace s)"
proof (cases e)
  case (QueueOperation t f now)
  with assms show ?thesis by (simp add: queueOperation_def Let_def)
next
  case Online
  with assms show ?thesis by simp
next
  case Offline
  with assms show ?thesis by (simp add: offlineHandler_def)
next
  case (Settled k out)
  with assms resumed_offline [of "s\<lparr>awaiting := take k (awaiting s) @ drop (Suc k) (awaiting s)\<rparr>"
      "awaiting s ! k" out]
  show ?thesis by simp
qed

lemma offline_run:
  "\<not> isOnline s \<Longrightarrow> Online \<notin> set es \<Longrightarrow>
     \<not> isOnline (run es s) \<and> startings (trace (run es s)) = startings (trace s)"
proof (induction es arbitrary: s)
  case Nil
  then show ?case by (simp add: run_def)
next
  case (Cons e es)
  from Cons.prems have "\<not> isOnline (step e s)"
    "startings (trace (step e s)) = startings (trace s)" "Online \<notin> set es"
    using offline_step [of s e] by auto
  with Cons.IH [of "step e s"] show ?case by (simp add: run_def)
qed

lemma whileLoop_offline_queue:
  "\<not> isOnline s \<Longrightarrow> syncQueue (suspend (whileLoop s)) = syncQueue s \<and>
     \<not> isOnline (suspend (whileLoop s))"
  by (simp add: whileLoop_offline afterLoop_def)

lemma resumed_undisturbed:
  assumes "\<not> isOnline s" and "undisturbed (Settled k out)"
  shows "\<not> isOnline (suspend (resumed operation out s)) \<and>
     (\<exists>newer. syncQueue (suspend (resumed operation out s)) = syncQueue s @ newer)"
proof (cases out)
  case Success
  with assms(1) show ?thesis
    by (simp add: resumed_def tryCatch_def settled_def whileLoop_offline afterLoop_def)
next
  case (Failure error)
  show ?thesis
  proof (cases "isNetworkError error")
    case (Inl e)
    with Failure assms(1) show ?thesis
      by (simp add: resumed_def tryCatch_def settled_def)
  next
    case (Inr network)
    with Failure assms(2) have "\<not> network" by simp
    with Failure Inr assms(1) show ?thesis
      by (simp add: resumed_def tryCatch_def settled_def whileLoop_offline afterLoop_def Let_def)
  qed
qed

lemma undisturbed_step:
  assumes "\<not> isOnline s" and "undisturbed e"
  shows "\<not> isOnline (step e s) \<and> (\<exists>newer. syncQueue (step e s) = syncQueue s @ newer)"
proof (cases e)
  case (QueueOperation t f now)
  with assms show ?thesis by (simp add: queueOperation_def Let_def)
next
  case Online
  with assms show ?thesis by simp
next
  case Offline
  with assms show ?thesis by (simp add: offlineHandler_def)
next
  case (Settled k out)
  with assms resumed_undisturbed [of "s\<lparr>awaiting := take k (awaiting s) @ drop (Suc k) (awaiting s)\<rparr>"
      k out "awaiting s ! k"]
  show ?thesis by simp
qed

lemma undisturbed_run:
  "\<not> isOnline s \<Longrightarrow> list_all undisturbed es \<Longrightarrow>
     \<not> isOnline (run es s) \<and> (\<exists>newer. syncQueue (run es s) = syncQueue s @ newer)"
proof (induction es arbitrary: s)
  case Nil
  then show ?case by (simp add: run_def)
next
  case (Cons e es)
  from Cons.prems undisturbed_step [of s e] obtain newer
    where 1: "\<not> isOnline (step e s)" "syncQueue (step e s) = syncQueue s @ newer"
    by auto
  from Cons.IH [OF 1(1)] Cons.prems obtain newer'
    where 2: "\<not> isOnline (run es (step e s))"
      "syncQueue (run es (step e s)) = syncQueue (step e s) @ newer'"
    by auto
  from 1 2 show ?case by (simp add: run_def)
qed

lemma undisturbed_not_online: "list_all undisturbed es \<Longrightarrow> Online \<notin> set es"
  by (induction es) auto

lemma online_resume:
  "syncQueue s = operation # rest \<Longrightarrow>
     step Online s =
       s\<lparr>isOnline := True, status := syncing, syncQueue := rest,
         trace := trace s @ [Started operation], awaiting := awaiting s @ [operation]\<rparr>"
  by (simp add: onlineHandler_def processQueue_def whileLoop_def executeOperation_def)

lemma network_step:
  assumes "k < length (awaiting s)" and "isNetworkError error = Inr True"
  shows "step (Settled k (Failure error)) s =
     s\<lparr>awaiting := take k (awaiting s) @ drop (Suc k) (awaiting s),
       trace := trace s @ [Ended (awaiting s ! k) (Failure error)],
       syncQueue := awaiting s ! k # syncQueue s, isOnline := False, status := offline\<rparr>"
  using assms by (simp add: resumed_def tryCatch_def settled_def afterLoop_def)

text \<open>
  C2, as the code has it. When the execution that an activation of \<open>processQueue\<close>
  awaits ends in a failure that \<open>isNetworkError\<close> classifies as of the network, the
  activation puts the operation back at the front of the queue as it is, its counter
  included, sets the manager offline and returns: nothing is reported and no execution
  is started, neither then nor by any later event before the \<open>online\<close> event. As long
  as no execution that another activation awaits fails for the network, the queue keeps
  the operation at its front, behind it what was queued before and then what is queued
  meanwhile, and the \<open>online\<close> event then starts the execution of that operation.
\<close>

theorem network_failure_goes_offline:
  assumes "t = step (Settled k (Failure error)) s"
    and "k < length (awaiting s)" and "isNetworkError error = Inr True"
  shows "syncQueue t = awaiting s ! k # syncQueue s \<and>
         isOnline t = False \<and> status t = offline \<and>
         awaiting t = take k (awaiting s) @ drop (Suc k) (awaiting s) \<and>
         trace t = trace s @ [Ended (awaiting s ! k) (Failure error)] \<and>
         (\<forall>es. Online \<notin> set es \<longrightarrow>
            isOnline (run es t) = False \<and> startings (trace (run es t)) = startings (trace s)) \<and>
         (\<forall>es. list_all undisturbed es \<longrightarrow>
            (\<exists>newer.
               syncQueue (run es t) = awaiting s ! k # syncQueue s @ newer \<and>
               step Online (run es t) =
                 (run es t)\<lparr>isOnline := True, status := syncing,
                    syncQueue := syncQueue s @ newer,
                    trace := trace (run es t) @ [Started (awaiting s ! k)],
                    awaiting := awaiting (run es t) @ [awaiting s ! k]\<rparr>))"
proof -
  note t = network_step [OF assms(2,3), folded assms(1)]
  have off: "\<not> isOnline t" by (simp add: t)
  have "isOnline (run es t) = False \<and> startings (trace (run es t)) = startings (trace s)"
    if "Online \<notin> set es" for es
    using offline_run [OF off that] by (simp add: t startings_append)
  moreover have "\<exists>newer.
               syncQueue (run es t) = awaiting s ! k # syncQueue s @ newer \<and>
               step Online (run es t) =
                 (run es t)\<lparr>isOnline := True, status := syncing,
                    syncQueue := syncQueue s @ newer,
                    trace := trace (run es t) @ [Started (awaiting s ! k)],
                    awaiting := awaiting (run es t) @ [awaiting s ! k]\<rparr>"
    if "list_all undisturbed es" for es
  proof -
    from undisturbed_run [OF off that] obtain newer
      where "syncQueue (run es t) = syncQueue t @ newer"
      by blast
    then have front: "syncQueue (run es t) = awaiting s ! k # (syncQueue s @ newer)"
      by (simp add: t)
    from online_resume [OF front] front show ?thesis
      by (intro exI [of _ newer]) simp
  qed
  ultimately show ?thesis by (simp add: t)
qed

subsection \<open>The retry budget\<close>

lemma retriable_tryCatch:
  assumes "isNetworkError error = Inr False"
  shows "tryCatch operation (Failure error) s =
     (Continue,
      if retries operation + 1 < 3
      then s\<lparr>trace := trace s @ [Ended operation (Failure error)],
             status := (if syncQueue s \<noteq> [] then syncing else synced),
             syncQueue := syncQueue s @ [operation\<lparr>retries := retries operation + 1\<rparr>]\<rparr>
      else s\<lparr>trace := trace s @ [Ended operation (Failure error),
                                  Reported (operation\<lparr>retries := retries operation + 1\<rparr>)],
             status := (if syncQueue s \<noteq> [] then syncing else synced)\<rparr>)"
  using assms by (simp add: tryCatch_def settled_def Let_def)

lemma inv_reachable: "queue_inv (run es constructed)"
  by (rule inv_run [OF inv_constructed])

lemma inv_gone:
  assumes "queue_inv s" and "i \<in># finished (trace s)"
  shows "i \<notin> op_id ` (set (syncQueue s) \<union> set (awaiting s))"
proof -
  from assms(2) obtain F where F: "finished (trace s) = add_mset i F"
    by (meson mset_add)
  from assms(1) have "(ids (syncQueue s) + ids (awaiting s)) + add_mset i F + {#} =
      mset [0..<created s]"
    by (simp add: queue_inv_def F)
  from once(1) [OF this] show ?thesis
    by (simp add: ids_def image_Un)
qed

text \<open>
  C1. When the execution of an operation ends in a failure that \<open>isNetworkError\<close>
  classifies as not of the network, the \<open>catch\<close> block of \<open>processQueue\<close> adds 1 to
  the operation's counter; with the counter then below 3 it puts the operation at the
  back of the queue, and otherwise it leaves it out of the queue and reports the failure
  once; in both cases the loop goes on. Whatever calls of \<open>queueOperation\<close>, window
  events and ends of executions the manager has seen since its construction, in whatever
  order: a queued or executing operation has failed as often as its counter says, fewer
  than 3 times; no operation has more than 3 counted failures, and it has one report,
  exactly one, when it has 3, and none before; an operation reported is neither queued
  nor executing; and every execution started when its operation had failed fewer than 3
  times, so that none is a fourth.
\<close>

theorem retry_budget_three:
  assumes "isNetworkError error = Inr False"
  shows "fst (tryCatch operation (Failure error) t) = Continue \<and>
         trace (snd (tryCatch operation (Failure error) t)) =
           trace t @ Ended operation (Failure error) #
             (if retries operation + 1 < 3 then []
              else [Reported (operation\<lparr>retries := retries operation + 1\<rparr>)]) \<and>
         syncQueue (snd (tryCatch operation (Failure error) t)) =
           syncQueue t @
             (if retries operation + 1 < 3
              then [operation\<lparr>retries := retries operation + 1\<rparr>] else []) \<and>
         (\<forall>queued \<in> set (syncQueue (run es constructed)) \<union> set (awaiting (run es constructed)).
            retries queued < 3 \<and>
            failures (trace (run es constructed)) (op_id queued) = retries queued) \<and>
         (\<forall>i. failures (trace (run es constructed)) i \<le> 3 \<and>
              count_list (reported (trace (run es constructed))) i =
                (if failures (trace (run es constructed)) i = 3 then 1 else 0)) \<and>
         (\<forall>i \<in> set (reported (trace (run es constructed))).
            i \<notin> op_id ` (set (syncQueue (run es constructed)) \<union>
                               set (awaiting (run es constructed)))) \<and>
         within_budget (trace (run es constructed))"
proof -
  note inv = inv_reachable [of es]
  have gone: "i \<notin> op_id ` (set (syncQueue (run es constructed)) \<union>
                               set (awaiting (run es constructed)))"
    if "i \<in> set (reported (trace (run es constructed)))" for i
    using inv_gone [OF inv, of i] that by (simp add: finished_def)
  from inv gone show ?thesis
    unfolding retriable_tryCatch [OF assms]
    by (simp add: queue_inv_def)
qed

subsection \<open>Nothing is lost\<close>

lemma network_tryCatch:
  "isNetworkError error = Inr network \<Longrightarrow>
     syncQueue (snd (tryCatch operation (Failure error) s)) =
       (if network then operation # syncQueue s
        else if retries operation + 1 < 3
          then syncQueue s @ [operation\<lparr>retries := retries operation + 1\<rparr>]
          else syncQueue s)"
  by (simp add: tryCatch_def settled_def Let_def)

text \<open>
  C10. An activation of \<open>processQueue\<close> returns, from its call or after an execution it
  awaited, only with the queue empty or the manager offline, and it ends by an exception
  only after a failure that has no message. The operation of a failed execution goes to
  the front of the queue when the failure is of the network, to the back when it is not
  and the counter stays below 3, and nowhere otherwise. Whatever the manager has seen
  since its construction, in whatever order: every operation ever queued is, exactly
  once, queued, executing, executed with success, reported, or the operation of a
  failure without message; a reported one has failed 3 times; every execution started
  has ended or is awaited; and the outcomes of the executions are outcomes handed to the
  manager, in their order. With every failure an \<open>Error\<close> that has its message, no
  operation is of the last kind, so that none is lost, and while the manager is online
  and operations are queued, an activation is under way.
\<close>

theorem processQueue_drained_or_offline:
  "(fst (processQueue t) = Returned \<longrightarrow>
      syncQueue (snd (processQueue t)) = [] \<or> \<not> isOnline (snd (processQueue t))) \<and>
   (fst (resumed operation out t) = Returned \<longrightarrow>
      syncQueue (snd (resumed operation out t)) = [] \<or>
      \<not> isOnline (snd (resumed operation out t))) \<and>
   (fst (resumed operation out t) = Rejected e \<longrightarrow>
      (\<exists>rejection. out = Failure rejection \<and> message rejection = None)) \<and>
   (isNetworkError error = Inr network \<longrightarrow>
      syncQueue (snd (tryCatch operation (Failure error) t)) =
        (if network then operation # syncQueue t
         else if retries operation + 1 < 3
           then syncQueue t @ [operation\<lparr>retries := retries operation + 1\<rparr>]
           else syncQueue t)) \<and>
   mset (map op_id (syncQueue (run es constructed))) +
     mset (map op_id (awaiting (run es constructed))) +
     mset (succeeded (trace (run es constructed))) +
     mset (reported (trace (run es constructed))) +
     mset (unclassified (trace (run es constructed))) = mset [0..<calls es] \<and>
   (\<forall>i \<in> set (reported (trace (run es constructed))).
      failures (trace (run es constructed)) i = 3) \<and>
   mset (startings (trace (run es constructed))) =
     mset (map fst (endings (trace (run es constructed)))) +
     mset (awaiting (run es constructed)) \<and>
   subseq (map snd (endings (trace (run es constructed)))) (granted es) \<and>
   (list_all with_message es \<longrightarrow>
      unclassified (trace (run es constructed)) = [] \<and>
      (syncQueue (run es constructed) \<noteq> [] \<and> isOnline (run es constructed) \<longrightarrow>
         awaiting (run es constructed) \<noteq> []))"
proof -
  note inv = inv_reachable [of es]
  have "live constructed" by (simp add: live_def constructed_def)
  then have alive: "syncQueue (run es constructed) \<noteq> [] \<and> isOnline (run es constructed) \<longrightarrow>
            awaiting (run es constructed) \<noteq> []"
    if "list_all with_message es"
    using live_run [OF that] by (simp add: live_def)
  have none: "unclassified (trace (run es constructed)) = []" if "list_all with_message es"
    using unclassified_run [OF that, of constructed] by (simp add: constructed_def)
  have n: "created (run es constructed) = calls es"
    by (simp add: created_run constructed_def)
  from inv have all: "mset (map op_id (syncQueue (run es constructed))) +
           mset (map op_id (awaiting (run es constructed))) +
           mset (succeeded (trace (run es constructed))) +
           mset (reported (trace (run es constructed))) +
           mset (unclassified (trace (run es constructed))) = mset [0..<calls es]"
    unfolding queue_inv_def ids_def finished_def n by (simp add: ac_simps)
  have three: "failures (trace (run es constructed)) i = 3"
    if "i \<in> set (reported (trace (run es constructed)))" for i
  proof -
    from that have "count_list (reported (trace (run es constructed))) i \<noteq> 0"
      by (simp add: count_list_0_iff)
    with inv show ?thesis
      unfolding queue_inv_def by (metis (full_types))
  qed
  from inv have exec: "mset (startings (trace (run es constructed))) =
           mset (map fst (endings (trace (run es constructed)))) +
           mset (awaiting (run es constructed))"
    by (simp add: queue_inv_def)
  from run_trace [of es constructed]
  have tie: "subseq (map snd (endings (trace (run es constructed)))) (granted es)"
    by (auto simp: constructed_def)
  show ?thesis
    using processQueue_returned [of t] resumed_returned [of operation out t]
      resumed_rejected [of operation out t e] network_tryCatch [of error network operation t]
      alive none all three exec tie
    by blast
qed

subsection \<open>Sample runs\<close>

lemma api_failure_class: "isNetworkError api_failure = Inr False"
  by (simp add: isNetworkError_def api_failure_def)

lemma fetch_failure_class: "isNetworkError fetch_failure = Inr True"
  by (simp add: isNetworkError_def fetch_failure_def)

lemma bare_failure_class: "isNetworkError bare_failure = Inl TypeError"
  by (simp add: isNetworkError_def bare_failure_def)

lemmas queue_defs =
  run_def queueOperation_def onlineHandler_def offlineHandler_def processQueue_def
  whileLoop_def executeOperation_def resumed_def tryCatch_def settled_def afterLoop_def
  constructed_def demo_op_def Let_def

lemma same_file_twice:
  "run [QueueOperation Upload ''a.md'' 0, QueueOperation Upload ''a.md'' 5,
        Settled 0 (Failure api_failure), Settled 0 (Failure api_failure),
        Settled 0 (Failure api_failure), Settled 0 (Failure api_failure),
        Settled 0 (Failure api_failure)] constructed =
     \<lparr>syncQueue = [], isOnline = True, status = synced,
      awaiting = [\<lparr>op_id = Suc 0, optype = Upload, op_file = ''a.md'', timestamp = 5, retries = 2\<rparr>],
      created = 2,
      trace = [Started (demo_op 0 ''a.md'' 0),
               Started \<lparr>op_id = Suc 0, optype = Upload, op_file = ''a.md'', timestamp = 5, retries = 0\<rparr>,
               Ended (demo_op 0 ''a.md'' 0) (Failure api_failure),
               Started (demo_op 0 ''a.md'' (Suc 0)),
               Ended \<lparr>op_id = Suc 0, optype = Upload, op_file = ''a.md'', timestamp = 5, retries = 0\<rparr>
                 (Failure api_failure),
               Started \<lparr>op_id = Suc 0, optype = Upload, op_file = ''a.md'', timestamp = 5,
                 retries = Suc 0\<rparr>,
               Ended (demo_op 0 ''a.md'' (Suc 0)) (Failure api_failure),
               Started (demo_op 0 ''a.md'' 2),
               Ended \<lparr>op_id = Suc 0, optype = Upload, op_file = ''a.md'', timestamp = 5,
                 retries = Suc 0\<rparr> (Failure api_failure),
               Started \<lparr>op_id = Suc 0, optype = Upload, op_file = ''a.md'', timestamp = 5, retries = 2\<rparr>,
               Ended (demo_op 0 ''a.md'' 2) (Failure api_failure),
               Reported (demo_op 0 ''a.md'' 3)]\<rparr>"
  by (simp add: queue_defs api_failure_class)

theorem retry_budget_three_witness:
  "isNetworkError api_failure = Inr False \<and>
   syncQueue (snd (tryCatch (demo_op 0 ''a.md'' 0) (Failure api_failure) constructed)) =
     [demo_op 0 ''a.md'' (Suc 0)] \<and>
   trace (snd (tryCatch (demo_op 0 ''a.md'' 2) (Failure api_failure) constructed)) =
     [Ended (demo_op 0 ''a.md'' 2) (Failure api_failure), Reported (demo_op 0 ''a.md'' 3)] \<and>
   awaiting (run [QueueOperation Upload ''a.md'' 0, QueueOperation Upload ''a.md'' 5,
        Settled 0 (Failure api_failure), Settled 0 (Failure api_failure),
        Settled 0 (Failure api_failure), Settled 0 (Failure api_failure),
        Settled 0 (Failure api_failure)] constructed) =
     [\<lparr>op_id = Suc 0, optype = Upload, op_file = ''a.md'', timestamp = 5, retries = 2\<rparr>] \<and>
   failures (trace (run [QueueOperation Upload ''a.md'' 0, QueueOperation Upload ''a.md'' 5,
        Settled 0 (Failure api_failure), Settled 0 (Failure api_failure),
        Settled 0 (Failure api_failure), Settled 0 (Failure api_failure),
        Settled 0 (Failure api_failure)] constructed)) (Suc 0) = 2 \<and>
   failures (trace (run [QueueOperation Upload ''a.md'' 0, QueueOperation Upload ''a.md'' 5,
        Settled 0 (Failure api_failure), Settled 0 (Failure api_failure),
        Settled 0 (Failure api_failure), Settled 0 (Failure api_failure),
        Settled 0 (Failure api_failure)] constructed)) 0 = 3 \<and>
   count_list (reported (trace (run [QueueOperation Upload ''a.md'' 0,
        QueueOperation Upload ''a.md'' 5,
        Settled 0 (Failure api_failure), Settled 0 (Failure api_failure),
        Settled 0 (Failure api_failure), Settled 0 (Failure api_failure),
        Settled 0 (Failure api_failure)] constructed))) 0 = 1 \<and>
   count_list (reported (trace (run [QueueOperation Upload ''a.md'' 0,
        QueueOperation Upload ''a.md'' 5,
        Settled 0 (Failure api_failure), Settled 0 (Failure api_failure),
        Settled 0 (Failure api_failure), Settled 0 (Failure api_failure),
        Settled 0 (Failure api_failure)] constructed))) (Suc 0) = 0 \<and>
   within_budget (trace (run [QueueOperation Upload ''a.md'' 0, QueueOperation Upload ''a.md'' 5,
        Settled 0 (Failure api_failure), Settled 0 (Failure api_failure),
        Settled 0 (Failure api_failure), Settled 0 (Failure api_failure),
        Settled 0 (Failure api_failure)] constructed))"
proof -
  let ?es = "[QueueOperation Upload ''a.md'' 0, QueueOperation Upload ''a.md'' 5,
        Settled 0 (Failure api_failure), Settled 0 (Failure api_failure),
        Settled 0 (Failure api_failure), Settled 0 (Failure api_failure),
        Settled 0 (Failure api_failure)]"
  let ?second = "\<lparr>op_id = Suc 0, optype = Upload, op_file = ''a.md'', timestamp = 5, retries = 2\<rparr>"
  note one = retry_budget_three [OF api_failure_class, where operation = "demo_op 0 ''a.md'' 0"
      and t = constructed and es = ?es]
  note two = retry_budget_three [OF api_failure_class, where operation = "demo_op 0 ''a.md'' 2"
      and t = constructed and es = ?es]
  have under_way: "awaiting (run ?es constructed) = [?second]"
    unfolding same_file_twice by simp
  with one have "failures (trace (run ?es constructed)) (op_id ?second) = retries ?second"
    by simp
  then have second: "failures (trace (run ?es constructed)) (Suc 0) = 2" by simp
  have first: "failures (trace (run ?es constructed)) 0 = 3"
    unfolding same_file_twice by (simp add: failures_def demo_op_def api_failure_class)
  from one have reports: "count_list (reported (trace (run ?es constructed))) i =
      (if failures (trace (run ?es constructed)) i = 3 then 1 else 0)" for i
    by blast
  from reports [of 0] first have once: "count_list (reported (trace (run ?es constructed))) 0 = 1"
    by simp
  from reports [of "Suc 0"] second
  have not_yet: "count_list (reported (trace (run ?es constructed))) (Suc 0) = 0"
    by simp
  from one have budget: "within_budget (trace (run ?es constructed))" by blast
  from one have behind: "syncQueue (snd (tryCatch (demo_op 0 ''a.md'' 0) (Failure api_failure)
      constructed)) = [demo_op 0 ''a.md'' (Suc 0)]"
    by (simp add: demo_op_def constructed_def)
  from two have out: "trace (snd (tryCatch (demo_op 0 ''a.md'' 2) (Failure api_failure)
      constructed)) =
     [Ended (demo_op 0 ''a.md'' 2) (Failure api_failure), Reported (demo_op 0 ''a.md'' 3)]"
    by (simp add: demo_op_def constructed_def)
  from api_failure_class behind out under_way second first once not_yet budget
  show ?thesis by blast
qed

lemma held_back:
  "run [QueueOperation Upload ''a.md'' 0, QueueOperation Upload ''b.md'' 0] constructed =
     \<lparr>syncQueue = [], isOnline = True, status = syncing,
      awaiting = [demo_op 0 ''a.md'' 0, demo_op (Suc 0) ''b.md'' 0], created = 2,
      trace = [Started (demo_op 0 ''a.md'' 0), Started (demo_op (Suc 0) ''b.md'' 0)]\<rparr>"
  by (simp add: queue_defs)

lemma held_back_resumed:
  "step Online (run [Settled 0 (Failure api_failure), QueueOperation Upload ''c.md'' 0]
     (step (Settled 0 (Failure fetch_failure))
        (run [QueueOperation Upload ''a.md'' 0, QueueOperation Upload ''b.md'' 0] constructed))) =
     \<lparr>syncQueue = [demo_op (Suc 0) ''b.md'' (Suc 0), demo_op 2 ''c.md'' 0], isOnline = True,
      status = syncing, awaiting = [demo_op 0 ''a.md'' 0], created = 3,
      trace = [Started (demo_op 0 ''a.md'' 0), Started (demo_op (Suc 0) ''b.md'' 0),
               Ended (demo_op 0 ''a.md'' 0) (Failure fetch_failure),
               Ended (demo_op (Suc 0) ''b.md'' 0) (Failure api_failure),
               Started (demo_op 0 ''a.md'' 0)]\<rparr>"
  unfolding held_back by (simp add: queue_defs api_failure_class fetch_failure_class)

theorem network_failure_goes_offline_witness:
  "(0::nat) < length (awaiting (run [QueueOperation Upload ''a.md'' 0,
      QueueOperation Upload ''b.md'' 0] constructed)) \<and>
   isNetworkError fetch_failure = Inr True \<and>
   list_all undisturbed [Settled 0 (Failure api_failure), QueueOperation Upload ''c.md'' 0] \<and>
   syncQueue (step (Settled 0 (Failure fetch_failure))
     (run [QueueOperation Upload ''a.md'' 0, QueueOperation Upload ''b.md'' 0] constructed)) =
     [demo_op 0 ''a.md'' 0] \<and>
   isOnline (step (Settled 0 (Failure fetch_failure))
     (run [QueueOperation Upload ''a.md'' 0, QueueOperation Upload ''b.md'' 0] constructed)) =
     False \<and>
   startings (trace (run [Settled 0 (Failure api_failure), QueueOperation Upload ''c.md'' 0]
     (step (Settled 0 (Failure fetch_failure))
       (run [QueueOperation Upload ''a.md'' 0, QueueOperation Upload ''b.md'' 0] constructed)))) =
     [demo_op 0 ''a.md'' 0, demo_op (Suc 0) ''b.md'' 0] \<and>
   hd (syncQueue (run [Settled 0 (Failure api_failure), QueueOperation Upload ''c.md'' 0]
     (step (Settled 0 (Failure fetch_failure))
       (run [QueueOperation Upload ''a.md'' 0, QueueOperation Upload ''b.md'' 0] constructed)))) =
     demo_op 0 ''a.md'' 0 \<and>
   awaiting (step Online (run [Settled 0 (Failure api_failure), QueueOperation Upload ''c.md'' 0]
     (step (Settled 0 (Failure fetch_failure))
       (run [QueueOperation Upload ''a.md'' 0, QueueOperation Upload ''b.md'' 0] constructed)))) =
     [demo_op 0 ''a.md'' 0] \<and>
   syncQueue (step Online (run [Settled 0 (Failure api_failure), QueueOperation Upload ''c.md'' 0]
     (step (Settled 0 (Failure fetch_failure))
       (run [QueueOperation Upload ''a.md'' 0, QueueOperation Upload ''b.md'' 0] constructed)))) =
     [demo_op (Suc 0) ''b.md'' (Suc 0), demo_op 2 ''c.md'' 0]"
proof -
  let ?s = "run [QueueOperation Upload ''a.md'' 0, QueueOperation Upload ''b.md'' 0] constructed"
  let ?t = "step (Settled 0 (Failure fetch_failure)) ?s"
  let ?es = "[Settled 0 (Failure api_failure), QueueOperation Upload ''c.md'' 0]"
  have k: "0 < length (awaiting ?s)" and a: "awaiting ?s ! 0 = demo_op 0 ''a.md'' 0"
    and q: "syncQueue ?s = []"
    and tr: "startings (trace ?s) = [demo_op 0 ''a.md'' 0, demo_op (Suc 0) ''b.md'' 0]"
    unfolding held_back by simp_all
  have es: "list_all undisturbed ?es" and no: "Online \<notin> set ?es"
    by (simp_all add: api_failure_class)
  note inst = network_failure_goes_offline [OF refl k fetch_failure_class]
  from inst have front: "syncQueue ?t = [demo_op 0 ''a.md'' 0]"
    and off: "isOnline ?t = False"
    unfolding a q by simp_all
  from inst no have halted: "startings (trace (run ?es ?t)) = startings (trace ?s)"
    by blast
  from inst es obtain newer where "syncQueue (run ?es ?t) = awaiting ?s ! 0 # syncQueue ?s @ newer"
    by blast
  then have first: "hd (syncQueue (run ?es ?t)) = demo_op 0 ''a.md'' 0"
    unfolding a by simp
  have again: "awaiting (step Online (run ?es ?t)) = [demo_op 0 ''a.md'' 0]"
    "syncQueue (step Online (run ?es ?t)) = [demo_op (Suc 0) ''b.md'' (Suc 0), demo_op 2 ''c.md'' 0]"
    unfolding held_back_resumed by simp_all
  from k fetch_failure_class es front off halted first again show ?thesis
    unfolding tr by blast
qed

text \<open>
  C2, as the specification states it, fails when two activations are under way: two
  operations are queued one after the other while the manager is online, so that each
  call of \<open>queueOperation\<close> starts an activation; the execution of the first fails for
  the network, then that of the second does. The second operation is then in front of
  the first, and the \<open>online\<close> event starts the second, not the first.
\<close>

theorem overlapping_activations_counterexample:
  "awaiting (run [QueueOperation Upload ''a.md'' 0, QueueOperation Upload ''b.md'' 0] constructed) =
     [demo_op 0 ''a.md'' 0, demo_op (Suc 0) ''b.md'' 0] \<and>
   syncQueue (run [QueueOperation Upload ''a.md'' 0, QueueOperation Upload ''b.md'' 0,
       Settled 0 (Failure fetch_failure)] constructed) = [demo_op 0 ''a.md'' 0] \<and>
   syncQueue (run [QueueOperation Upload ''a.md'' 0, QueueOperation Upload ''b.md'' 0,
       Settled 0 (Failure fetch_failure), Settled 0 (Failure fetch_failure)] constructed) =
     [demo_op (Suc 0) ''b.md'' 0, demo_op 0 ''a.md'' 0] \<and>
   awaiting (run [QueueOperation Upload ''a.md'' 0, QueueOperation Upload ''b.md'' 0,
       Settled 0 (Failure fetch_failure), Settled 0 (Failure fetch_failure), Online] constructed) =
     [demo_op (Suc 0) ''b.md'' 0] \<and>
   awaiting (run [QueueOperation Upload ''a.md'' 0, QueueOperation Upload ''b.md'' 0,
       Settled 0 (Failure fetch_failure), Settled 0 (Failure fetch_failure), Online] constructed) \<noteq>
     [demo_op 0 ''a.md'' 0]"
  by (simp add: queue_defs fetch_failure_class)

lemma mixed_run:
  "run [QueueOperation Upload ''a.md'' 0, QueueOperation Upload ''b.md'' 0,
        Settled 0 (Failure api_failure), Settled 0 Success, Settled 0 (Failure api_failure),
        Settled 0 (Failure api_failure)] constructed =
     \<lparr>syncQueue = [], isOnline = True, status = synced, awaiting = [], created = 2,
      trace = [Started (demo_op 0 ''a.md'' 0), Started (demo_op (Suc 0) ''b.md'' 0),
               Ended (demo_op 0 ''a.md'' 0) (Failure api_failure),
               Started (demo_op 0 ''a.md'' (Suc 0)),
               Ended (demo_op (Suc 0) ''b.md'' 0) Success,
               Ended (demo_op 0 ''a.md'' (Suc 0)) (Failure api_failure),
               Started (demo_op 0 ''a.md'' 2),
               Ended (demo_op 0 ''a.md'' 2) (Failure api_failure),
               Reported (demo_op 0 ''a.md'' 3)]\<rparr>"
  by (simp add: queue_defs api_failure_class)

theorem processQueue_drained_or_offline_witness:
  "list_all with_message [QueueOperation Upload ''a.md'' 0, QueueOperation Upload ''b.md'' 0,
        Settled 0 (Failure api_failure), Settled 0 Success, Settled 0 (Failure api_failure),
        Settled 0 (Failure api_failure)] \<and>
   fst (resumed (demo_op 0 ''a.md'' 2) (Failure api_failure) constructed) = Returned \<and>
   syncQueue (snd (resumed (demo_op 0 ''a.md'' 2) (Failure api_failure) constructed)) = [] \<and>
   isNetworkError fetch_failure = Inr True \<and>
   syncQueue (snd (tryCatch (demo_op 0 ''a.md'' 2) (Failure fetch_failure) constructed)) =
     [demo_op 0 ''a.md'' 2] \<and>
   syncQueue (run [QueueOperation Upload ''a.md'' 0, QueueOperation Upload ''b.md'' 0,
        Settled 0 (Failure api_failure), Settled 0 Success, Settled 0 (Failure api_failure),
        Settled 0 (Failure api_failure)] constructed) = [] \<and>
   succeeded (trace (run [QueueOperation Upload ''a.md'' 0, QueueOperation Upload ''b.md'' 0,
        Settled 0 (Failure api_failure), Settled 0 Success, Settled 0 (Failure api_failure),
        Settled 0 (Failure api_failure)] constructed)) = [Suc 0] \<and>
   reported (trace (run [QueueOperation Upload ''a.md'' 0, QueueOperation Upload ''b.md'' 0,
        Settled 0 (Failure api_failure), Settled 0 Success, Settled 0 (Failure api_failure),
        Settled 0 (Failure api_failure)] constructed)) = [0] \<and>
   failures (trace (run [QueueOperation Upload ''a.md'' 0, QueueOperation Upload ''b.md'' 0,
        Settled 0 (Failure api_failure), Settled 0 Success, Settled 0 (Failure api_failure),
        Settled 0 (Failure api_failure)] constructed)) 0 = 3 \<and>
   unclassified (trace (run [QueueOperation Upload ''a.md'' 0, QueueOperation Upload ''b.md'' 0,
        Settled 0 (Failure api_failure), Settled 0 Success, Settled 0 (Failure api_failure),
        Settled 0 (Failure api_failure)] constructed)) = [] \<and>
   mset (startings (trace (run [QueueOperation Upload ''a.md'' 0, QueueOperation Upload ''b.md'' 0,
        Settled 0 (Failure api_failure), Settled 0 Success, Settled 0 (Failure api_failure),
        Settled 0 (Failure api_failure)] constructed))) =
     mset (map fst (endings (trace (run [QueueOperation Upload ''a.md'' 0,
        QueueOperation Upload ''b.md'' 0, Settled 0 (Failure api_failure), Settled 0 Success,
        Settled 0 (Failure api_failure), Settled 0 (Failure api_failure)] constructed))))"
proof -
  let ?es = "[QueueOperation Upload ''a.md'' 0, QueueOperation Upload ''b.md'' 0,
        Settled 0 (Failure api_failure), Settled 0 Success, Settled 0 (Failure api_failure),
        Settled 0 (Failure api_failure)]"
  have msg: "list_all with_message ?es"
    by (simp add: api_failure_def)
  note inst = processQueue_drained_or_offline [where es = ?es and t = constructed
      and operation = "demo_op 0 ''a.md'' 2" and out = "Failure api_failure"
      and error = fetch_failure and network = True]
  have ret: "fst (resumed (demo_op 0 ''a.md'' 2) (Failure api_failure) constructed) = Returned"
    by (simp add: queue_defs api_failure_class)
  with inst have empty: "syncQueue (snd (resumed (demo_op 0 ''a.md'' 2) (Failure api_failure)
      constructed)) = []"
    by (simp add: resumed_def tryCatch_def settled_def whileLoop_def afterLoop_def
        constructed_def api_failure_class Let_def demo_op_def)
  from inst fetch_failure_class
  have front: "syncQueue (snd (tryCatch (demo_op 0 ''a.md'' 2) (Failure fetch_failure)
      constructed)) = [demo_op 0 ''a.md'' 2]"
    by (simp add: constructed_def)
  from inst have exec: "mset (startings (trace (run ?es constructed))) =
      mset (map fst (endings (trace (run ?es constructed)))) + mset (awaiting (run ?es constructed))"
    by blast
  have rest: "syncQueue (run ?es constructed) = []" "awaiting (run ?es constructed) = []"
    "succeeded (trace (run ?es constructed)) = [Suc 0]"
    "reported (trace (run ?es constructed)) = [0]"
    unfolding mixed_run by (simp_all add: demo_op_def)
  from inst rest have three: "failures (trace (run ?es constructed)) 0 = 3"
    by simp
  from inst msg have kept: "unclassified (trace (run ?es constructed)) = []"
    by blast
  from msg ret empty fetch_failure_class front rest three exec kept show ?thesis
    by simp
qed

text \<open>
  A rejection that is not an \<open>Error\<close> and has no message: \<open>isNetworkError\<close> throws inside the \<open>catch\<close> block, the activation ends by
  that exception, and the operation is neither queued again nor reported, while the
  manager is online with an operation queued and no activation under way.
\<close>

lemma rejection_without_message:
  "run [Offline, QueueOperation Upload ''a.md'' 0, QueueOperation Upload ''b.md'' 0, Online,
        Settled 0 (Failure bare_failure)] constructed =
     \<lparr>syncQueue = [demo_op (Suc 0) ''b.md'' 0], isOnline = True, status = syncing,
      awaiting = [], created = 2,
      trace = [Started (demo_op 0 ''a.md'' 0),
               Ended (demo_op 0 ''a.md'' 0) (Failure bare_failure)]\<rparr>"
  by (simp add: queue_defs bare_failure_class)

section \<open>Properties of the codec\<close>

lemma show_nat_small: "n < 10 \<Longrightarrow> show_nat n = [digit n]"
  by (subst show_nat.simps) simp

declare show_nat.simps [simp del]

lemma convertBlock_numbering:
  assumes "convertBlock block indentLevel numbering = Inr (md, numbering')"
    and "block_type block \<noteq> ''numbered_list_item''"
  shows "numbering' = numbering"
  using assms by (auto simp: convertBlock_def Let_def split: if_splits sum.splits)

lemma blockToMarkdown_total:
  "0 \<le> indentLevel \<Longrightarrow>
     \<exists>md numbering'. blockToMarkdown (Some block) indentLevel numbering = Inr (md, numbering')"
  by (cases "convertBlock block indentLevel numbering") (auto simp: blockToMarkdown_def)

lemma blockToMarkdown_other:
  assumes "0 \<le> indentLevel" and "block_type block \<noteq> ''numbered_list_item''"
  shows "\<exists>md. blockToMarkdown (Some block) indentLevel numbering = Inr (md, numbering)"
proof (cases "convertBlock block indentLevel numbering")
  case (Inl e)
  with assms show ?thesis by (simp add: blockToMarkdown_def)
next
  case (Inr r)
  obtain md numbering' where r: "r = (md, numbering')" by (cases r)
  with Inr assms convertBlock_numbering [of block indentLevel numbering md numbering']
  show ?thesis by (simp add: blockToMarkdown_def)
qed

lemma blockToMarkdown_numbered:
  assumes "0 \<le> indentLevel" and "block_type block = ''numbered_list_item''"
    and "extractRichText (field block ''numbered_list_item'' rich_text) = Inr t"
  shows "blockToMarkdown (Some block) indentLevel numbering =
     Inr (indentOf indentLevel @ show_int (currentNumber numbering indentLevel) @ ''. '' @ t @
            ''\<newline>'',
          numbering(indentLevel \<mapsto> currentNumber numbering indentLevel + 1))"
  using assms by (simp add: blockToMarkdown_def convertBlock_def Let_def)



lemma notionBlocksToMarkdown_negative:
  "indentLevel < 0 \<Longrightarrow> blocks \<noteq> [] \<Longrightarrow>
     notionBlocksToMarkdown blocks indentLevel numbering = Inl RangeError"
  by (cases blocks) (simp_all add: blockToMarkdown_def)

lemma notionBlocksToMarkdown_null:
  "0 \<le> indentLevel \<Longrightarrow> None \<in> set blocks \<Longrightarrow>
     notionBlocksToMarkdown blocks indentLevel numbering = Inl TypeError"
proof (induction blocks arbitrary: numbering)
  case Nil
  then show ?case by simp
next
  case (Cons entry blocks)
  show ?case
  proof (cases entry)
    case None
    with Cons.prems show ?thesis by (simp add: blockToMarkdown_def)
  next
    case (Some block)
    from blockToMarkdown_total [OF Cons.prems(1)] obtain md n1
      where b: "blockToMarkdown (Some block) indentLevel numbering = Inr (md, n1)" by blast
    from Cons.prems Some have "None \<in> set blocks" by simp
    from Cons.IH [OF Cons.prems(1) this, of n1] b Some show ?thesis by simp
  qed
qed


lemma notionBlocksToMarkdown_others:
  assumes "0 \<le> indentLevel"
    and "list_all (\<lambda>block. block_type block \<noteq> ''numbered_list_item'') blocks"
  shows "\<exists>md. notionBlocksToMarkdown (map Some blocks) indentLevel numbering =
     Inr (md, numbering)"
  using assms(2)
proof (induction blocks)
  case Nil
  show ?case by simp
next
  case (Cons block blocks)
  then obtain md rest where "blockToMarkdown (Some block) indentLevel numbering = Inr (md, numbering)"
    "notionBlocksToMarkdown (map Some blocks) indentLevel numbering = Inr (rest, numbering)"
    using blockToMarkdown_other [OF assms(1), of block numbering] by auto
  then show ?case by simp
qed


lemma or_else_Some: "or_else (Some s) [] = s"
  by (simp add: or_else_def)

lemma sample_list:
  "convertNotionToMarkdown [Some (numbered a), Some (numbered b), Some (bulleted c),
       Some (numbered d)] =
     Inr (''1. '' @ a @ ''\<newline>2. '' @ b @ ''\<newline>- '' @ c @ ''\<newline>3. '' @ d @ ''\<newline>'')"
  by (simp add: convertNotionToMarkdown_def blockToMarkdown_def convertBlock_def numbered_def
      bulleted_def text_block_def plain_def field_def extractRichText_def formatItem_def
      or_else_Some truthy_def currentNumber_def indentOf_def show_int_def show_nat_small digit_def
      Let_def)

lemma sample_paragraph:
  "convertNotionToMarkdown [Some (numbered a), Some (text_block ''paragraph'' [Some (plain p)]),
       Some (numbered d)] =
     Inr (''1. '' @ a @ ''\<newline>'' @ p @ ''\<newline>2. '' @ d @ ''\<newline>'')"
  by (simp add: convertNotionToMarkdown_def blockToMarkdown_def convertBlock_def numbered_def
      text_block_def plain_def field_def extractRichText_def formatItem_def
      or_else_Some truthy_def currentNumber_def indentOf_def show_int_def show_nat_small digit_def
      Let_def)

lemma sample_list_old:
  "fst (blocksToMarkdownOld convertTable
     [old_block ''numbered_list_item'' a, old_block ''numbered_list_item'' b,
      old_block ''bulleted_list_item'' c, old_block ''numbered_list_item'' d] 0 Map.empty) =
   ''1. '' @ a @ ''\<newline>2. '' @ b @ ''\<newline>- '' @ c @ ''\<newline>3. '' @ d @ ''\<newline>''"
  by (simp add: old_block_def joinedText_def currentNumber_def indentOf_def show_int_def
      show_nat_small digit_def Let_def)

text \<open>
  C4, as the code has it. A numbered item takes the number stored for its level (1 when
  nothing is stored) and stores the next one; a block of any other type leaves the stored
  numbers as they are, and so does any run of such blocks: nothing resets the counter of a
  level. Two numbered items, a bulleted item and a numbered item are rendered with the
  markers 1., 2., - and 3., by the earlier renderer too; a paragraph between two numbered
  items gives 1. and 2.
\<close>

theorem numbering_continues:
  assumes "0 \<le> indentLevel"
  shows "(block_type other \<noteq> ''numbered_list_item'' \<longrightarrow>
           (\<exists>md. blockToMarkdown (Some other) indentLevel numbering = Inr (md, numbering))) \<and>
         (list_all (\<lambda>block. block_type block \<noteq> ''numbered_list_item'') between \<longrightarrow>
           (\<exists>md. notionBlocksToMarkdown (map Some between) indentLevel numbering =
              Inr (md, numbering))) \<and>
         (block_type item = ''numbered_list_item'' \<and>
          extractRichText (field item ''numbered_list_item'' rich_text) = Inr t \<longrightarrow>
            blockToMarkdown (Some item) indentLevel numbering =
              Inr (indentOf indentLevel @ show_int (currentNumber numbering indentLevel) @ ''. '' @
                     t @ ''\<newline>'',
                   numbering(indentLevel \<mapsto> currentNumber numbering indentLevel + 1))) \<and>
         convertNotionToMarkdown [Some (numbered a), Some (numbered b), Some (bulleted c),
             Some (numbered d)] =
           Inr (''1. '' @ a @ ''\<newline>2. '' @ b @ ''\<newline>- '' @ c @ ''\<newline>3. '' @ d @
                ''\<newline>'') \<and>
         convertNotionToMarkdown [Some (numbered a),
             Some (text_block ''paragraph'' [Some (plain p)]), Some (numbered d)] =
           Inr (''1. '' @ a @ ''\<newline>'' @ p @ ''\<newline>2. '' @ d @ ''\<newline>'') \<and>
         fst (blocksToMarkdownOld convertTable
           [old_block ''numbered_list_item'' a, old_block ''numbered_list_item'' b,
            old_block ''bulleted_list_item'' c, old_block ''numbered_list_item'' d] 0 Map.empty) =
           ''1. '' @ a @ ''\<newline>2. '' @ b @ ''\<newline>- '' @ c @ ''\<newline>3. '' @ d @ ''\<newline>''"
  using assms blockToMarkdown_other [of indentLevel other numbering]
    notionBlocksToMarkdown_others [of indentLevel between numbering]
    blockToMarkdown_numbered [of indentLevel item t numbering]
    sample_list [of a b c d] sample_paragraph [of a p d] sample_list_old [of convertTable a b c d]
  by blast

theorem numbering_continues_witness:
  "(0::int) \<le> 0 \<and>
   block_type (bulleted ''c'') \<noteq> ''numbered_list_item'' \<and>
   (\<exists>md. blockToMarkdown (Some (bulleted ''c'')) 0 [0 \<mapsto> 3] = Inr (md, [0 \<mapsto> 3])) \<and>
   block_type (numbered ''d'') = ''numbered_list_item'' \<and>
   blockToMarkdown (Some (numbered ''d'')) 0 [0 \<mapsto> 3] = Inr (''3. d\<newline>'', [0 \<mapsto> 4]) \<and>
   convertNotionToMarkdown [Some (numbered ''a''), Some (numbered ''b''), Some (bulleted ''c''),
       Some (numbered ''d'')] =
     Inr ''1. a\<newline>2. b\<newline>- c\<newline>3. d\<newline>''"
proof -
  have other: "block_type (bulleted ''c'') \<noteq> ''numbered_list_item''"
    and item: "block_type (numbered ''d'') = ''numbered_list_item''"
    and rich: "extractRichText (field (numbered ''d'') ''numbered_list_item'' rich_text) = Inr ''d''"
    by (simp_all add: bulleted_def numbered_def text_block_def field_def extractRichText_def
        formatItem_def plain_def or_else_Some truthy_def)
  have number: "show_int (currentNumber [0 \<mapsto> 3] 0) = ''3''" "currentNumber [0 \<mapsto> 3] 0 + 1 = 4"
    by (simp_all add: currentNumber_def show_int_def show_nat_small digit_def)
  from numbering_continues [where indentLevel = 0 and other = "bulleted ''c''"
      and numbering = "[0 \<mapsto> 3]" and item = "numbered ''d''" and t = "''d''"
      and a = "''a''" and b = "''b''" and c = "''c''" and d = "''d''"]
  show ?thesis
    using other item rich number by (simp add: indentOf_def)
qed

text \<open>
  C4, as the specification states it: the fourth marker would be \<open>1.\<close> again, and it
  is not.
\<close>

theorem numbering_reset_counterexample:
  "convertNotionToMarkdown [Some (numbered ''a''), Some (numbered ''b''), Some (bulleted ''c''),
       Some (numbered ''d'')] \<noteq>
     Inr ''1. a\<newline>2. b\<newline>- c\<newline>1. d\<newline>''"
  by (simp add: sample_list)







section \<open>Properties of the remote client\<close>

lemma makeRequest_ok:
  "requestUrl req = Inr r \<Longrightarrow> http_status r = 200 \<Longrightarrow> makeRequest requestUrl req = Inr r"
  by (simp add: makeRequest_def)

lemma isArray_spread: "isArray (Some v) \<Longrightarrow> v = JArr (spread v)"
  by (cases v) auto

lemma queryLoop_pages:
  assumes "pagesFrom requestUrl (QueryDatabase databaseId) cursor pages"
    and "list_all (\<lambda>r. isArray (js_get (body r) ''results'')) pages"
  shows "queryLoop requestUrl databaseId cursor allPages =
     Some (Inr (allPages @ concat (map (\<lambda>r. filter isValidNotionPage (resultsOf r)) pages)))"
  using assms
proof (induction pages arbitrary: cursor allPages)
  case Nil
  then show ?case by simp
next
  case (Cons r rs)
  from Cons.prems have req: "makeRequest requestUrl (QueryDatabase databaseId (sent cursor)) = Inr r"
    and ok: "http_status r = 200" "js_truthy (js_get (body r) ''results'')"
    by (simp_all add: makeRequest_ok)
  from Cons.prems(2) obtain results where res: "js_get (body r) ''results'' = Some (JArr results)"
    by (cases "js_get (body r) ''results''" rule: isArray.cases) auto
  then have ro: "resultsOf r = results" by (simp add: resultsOf_def)
  show ?case
  proof (cases "rs = []")
    case True
    with Cons.prems have "\<not> js_truthy (js_get (body r) ''next_cursor'')" by simp
    with req ok res ro True show ?thesis
      by (subst queryLoop.simps) (simp add: Let_def)
  next
    case False
    with Cons.prems have more: "js_truthy (js_get (body r) ''next_cursor'')"
      and rest: "pagesFrom requestUrl (QueryDatabase databaseId) (js_get (body r) ''next_cursor'') rs"
      "list_all (\<lambda>r. isArray (js_get (body r) ''results'')) rs"
      by simp_all
    from Cons.IH [OF rest] req ok res ro more show ?thesis
      by (subst queryLoop.simps) (simp add: Let_def)
  qed
qed

lemma blocksLoop_pages:
  assumes "pagesFrom requestUrl (GetChildren pageId) cursor pages"
  shows "blocksLoop requestUrl pageId cursor allBlocks =
     Some (Inr (allBlocks @ concat (map resultsOf pages)))"
  using assms
proof (induction pages arbitrary: cursor allBlocks)
  case Nil
  then show ?case by simp
next
  case (Cons r rs)
  from Cons.prems have req: "makeRequest requestUrl (GetChildren pageId (sent cursor)) = Inr r"
    and ok: "http_status r = 200" "js_truthy (js_get (body r) ''results'')"
    by (simp_all add: makeRequest_ok)
  have ro: "spread (the (js_get (body r) ''results'')) = resultsOf r"
    by (simp add: resultsOf_def)
  show ?case
  proof (cases "rs = []")
    case True
    with Cons.prems have "\<not> js_truthy (js_get (body r) ''next_cursor'')" by simp
    with req ok True show ?thesis
      by (subst blocksLoop.simps) (simp add: Let_def ro)
  next
    case False
    with Cons.prems have more: "js_truthy (js_get (body r) ''next_cursor'')"
      and rest: "pagesFrom requestUrl (GetChildren pageId) (js_get (body r) ''next_cursor'') rs"
      by simp_all
    from Cons.IH [OF rest] req ok more show ?thesis
      by (subst blocksLoop.simps) (simp add: Let_def ro)
  qed
qed


declare appendFrom.simps [simp del]

lemma batch_count:
  "i < (n::nat) \<Longrightarrow> Suc ((n - (i + 10) + 9) div 10) = (n - i + 9) div 10"
  by (cases "n - i < 10") (simp_all add: div_add_self2 le_div_geq)

lemma appendFrom_batches:
  assumes ok: "\<forall>batch. \<exists>r. requestUrl (AppendChildren parentId batch) = Inr r \<and> http_status r = 200"
  shows "\<exists>batches.
     appendFrom requestUrl parentId blocks i = (map (AppendChildren parentId) batches, Inr ()) \<and>
     concat batches = drop i blocks \<and>
     length batches = (length blocks - i + 9) div 10 \<and>
     list_all (\<lambda>batch. length batch \<le> 10) batches"
proof (induction "length blocks - i" arbitrary: i rule: less_induct)
  case less
  show ?case
  proof (cases "i < length blocks")
    case False
    then show ?thesis by (subst appendFrom.simps) simp
  next
    case True
    define batch where "batch = slice blocks i (i + 10)"
    from ok obtain r where r: "requestUrl (AppendChildren parentId batch) = Inr r" "http_status r = 200"
      by blast
    then have req: "makeRequest requestUrl (AppendChildren parentId batch) = Inr r"
      by (simp add: makeRequest_ok)
    from True have "length blocks - (i + 10) < length blocks - i" by arith
    from less [OF this] obtain batches where
      rest: "appendFrom requestUrl parentId blocks (i + 10) = (map (AppendChildren parentId) batches, Inr ())"
      and cat: "concat batches = drop (i + 10) blocks"
      and len: "length batches = (length blocks - (i + 10) + 9) div 10"
      and small: "list_all (\<lambda>batch. length batch \<le> 10) batches"
      by blast
    have "appendFrom requestUrl parentId blocks i =
        (map (AppendChildren parentId) (batch # batches), Inr ())"
      using True req r rest by (subst appendFrom.simps) (simp add: batch_def [symmetric] Let_def)
    moreover have "concat (batch # batches) = drop i blocks"
    proof -
      have "take 10 (drop i blocks) @ drop 10 (drop i blocks) = drop i blocks"
        by (rule append_take_drop_id)
      then show ?thesis by (simp add: cat batch_def slice_def add.commute)
    qed
    moreover have "length (batch # batches) = (length blocks - i + 9) div 10"
      using batch_count [OF True] len by simp
    moreover have "list_all (\<lambda>batch. length batch \<le> 10) (batch # batches)"
      using small by (simp add: batch_def slice_def)
    ultimately show ?thesis by (intro exI [of _ "batch # batches"] conjI)
  qed
qed

lemma deleteEach_all:
  assumes ok: "\<forall>id. \<exists>r. requestUrl (DeleteBlock id) = Inr r \<and> http_status r = 200"
    and objects: "list_all (\<lambda>block. block \<noteq> JNull) blocks"
  shows "deleteEach requestUrl blocks =
     (map (\<lambda>block. DeleteBlock (js_get (Some block) ''id'')) blocks, Inr ())"
  using objects
proof (induction blocks)
  case Nil
  show ?case by simp
next
  case (Cons block blocks)
  from ok obtain r where r: "requestUrl (DeleteBlock (js_get (Some block) ''id'')) = Inr r"
    "http_status r = 200" by blast
  then have "makeRequest requestUrl (DeleteBlock (js_get (Some block) ''id'')) = Inr r"
    by (simp add: makeRequest_ok)
  with Cons r show ?case by (cases block) (simp_all add: Let_def)
qed


text \<open>
  C6. When the service answers the first request and each cursor it hands out with a page
  of results, up to a page without a cursor, \<open>queryDatabase\<close> returns, and what it
  returns is the results of all these pages, in order, without those that fail
  \<open>isValidNotionPage\<close> (which asks for an id and for \<open>properties.Name.title\<close>, an
  array); \<open>getPageBlocks\<close> returns the results of all the pages of children, in order.
\<close>

theorem queryDatabase_all_pages:
  assumes "pagesFrom requestUrl (QueryDatabase databaseId) None pages"
    and "list_all (\<lambda>r. isArray (js_get (body r) ''results'')) pages"
    and "pagesFrom requestUrl (GetChildren pageId) None chunks"
  shows "queryDatabase requestUrl databaseId =
           Some (Inr (filter isValidNotionPage (concat (map resultsOf pages)))) \<and>
         getPageBlocks requestUrl pageId = Some (Inr (concat (map resultsOf chunks))) \<and>
         (isValidNotionPage page \<longrightarrow>
            js_truthy (js_get (Some page) ''id'') \<and>
            isArray (js_get (js_get (js_get (Some page) ''properties'') ''Name'') ''title''))"
  using queryLoop_pages [OF assms(1,2), of "[]"] blocksLoop_pages [OF assms(3), of "[]"]
  by (simp add: queryDatabase_def getPageBlocks_def filter_concat comp_def isValidNotionPage_def)

lemma sample_database:
  "pagesFrom sample_service (QueryDatabase ''db'') None
     [answer [page_json ''p1'' ''a.md:a'', JObj [(''id'', JStr ''p2'')]] (JStr ''c1''),
      answer [page_json ''p3'' ''b.md:b''] JNull]"
  by (simp add: sample_service_def sent_def answer_def)

lemma sample_children:
  "pagesFrom sample_service (GetChildren ''p1'') None
     [answer [block_json ''b1'', block_json ''b2''] (JStr ''c1''), answer [block_json ''b3''] JNull]"
  by (simp add: sample_service_def sent_def answer_def)

lemma resultsOf_answer: "resultsOf (answer results next_cursor) = results"
  by (simp add: resultsOf_def answer_def)

theorem queryDatabase_all_pages_witness:
  "pagesFrom sample_service (QueryDatabase ''db'') None
     [answer [page_json ''p1'' ''a.md:a'', JObj [(''id'', JStr ''p2'')]] (JStr ''c1''),
      answer [page_json ''p3'' ''b.md:b''] JNull] \<and>
   pagesFrom sample_service (GetChildren ''p1'') None
     [answer [block_json ''b1'', block_json ''b2''] (JStr ''c1''), answer [block_json ''b3''] JNull] \<and>
   isValidNotionPage (page_json ''p1'' ''a.md:a'') \<and>
   queryDatabase sample_service ''db'' =
     Some (Inr [page_json ''p1'' ''a.md:a'', page_json ''p3'' ''b.md:b'']) \<and>
   getPageBlocks sample_service ''p1'' =
     Some (Inr [block_json ''b1'', block_json ''b2'', block_json ''b3''])"
proof -
  have arrays: "list_all (\<lambda>r. isArray (js_get (body r) ''results''))
     [answer [page_json ''p1'' ''a.md:a'', JObj [(''id'', JStr ''p2'')]] (JStr ''c1''),
      answer [page_json ''p3'' ''b.md:b''] JNull]"
    by (simp add: answer_def)
  have valid: "isValidNotionPage (page_json ''p1'' ''a.md:a'')"
    "isValidNotionPage (page_json ''p3'' ''b.md:b'')"
    "\<not> isValidNotionPage (JObj [(''id'', JStr ''p2'')])"
    by (simp_all add: isValidNotionPage_def page_json_def)
  from queryDatabase_all_pages [OF sample_database arrays sample_children,
      of "page_json ''p1'' ''a.md:a''"]
  show ?thesis
    using sample_database sample_children by (simp add: resultsOf_answer valid del: pagesFrom.simps)
qed


text \<open>
  C7. When every append request for the parent succeeds, \<open>appendBlocks\<close> hands the
  \<open>n\<close> blocks over in batches of at most 10, one request for a batch: \<open>(n + 9) div 10\<close>
  requests, the ceiling of \<open>n / 10\<close>, whose batches put together are the blocks in
  their order. For an empty list it makes no request, whatever the service.
\<close>

theorem appendBlocks_batches:
  assumes "\<forall>batch. \<exists>r. requestUrl (AppendChildren parentId batch) = Inr r \<and> http_status r = 200"
  shows "(\<exists>batches.
            appendBlocks requestUrl parentId blocks =
              (map (AppendChildren parentId) batches, Inr ()) \<and>
            concat batches = blocks \<and>
            length batches = (length blocks + 9) div 10 \<and>
            list_all (\<lambda>batch. length batch \<le> 10) batches) \<and>
         appendBlocks anyService parentId [] = ([], Inr ())"
proof
  from appendFrom_batches [OF assms, of blocks 0]
  show "\<exists>batches.
            appendBlocks requestUrl parentId blocks =
              (map (AppendChildren parentId) batches, Inr ()) \<and>
            concat batches = blocks \<and>
            length batches = (length blocks + 9) div 10 \<and>
            list_all (\<lambda>batch. length batch \<le> 10) batches"
    by (simp add: appendBlocks_def)
  show "appendBlocks anyService parentId [] = ([], Inr ())"
    by (simp add: appendBlocks_def appendFrom.simps)
qed

lemma sample_accepts: "\<exists>r. sample_service (AppendChildren i batch) = Inr r \<and> http_status r = 200"
  "\<exists>r. sample_service (DeleteBlock j) = Inr r \<and> http_status r = 200"
  by (simp_all add: sample_service_def answer_def)

lemma sample_append:
  "appendBlocks sample_service ''p1'' (map JNum [1, 2, 3, 4, 5, 6, 7, 8, 9, 10, 11, 12]) =
     ([AppendChildren ''p1'' (map JNum [1, 2, 3, 4, 5, 6, 7, 8, 9, 10]),
       AppendChildren ''p1'' (map JNum [11, 12])], Inr ())"
  by (simp add: appendBlocks_def appendFrom.simps slice_def makeRequest_def sample_service_def
      answer_def Let_def)

theorem appendBlocks_batches_witness:
  "(\<forall>batch. \<exists>r. sample_service (AppendChildren ''p1'' batch) = Inr r \<and> http_status r = 200) \<and>
   appendBlocks sample_service ''p1'' (map JNum [1, 2, 3, 4, 5, 6, 7, 8, 9, 10, 11, 12]) =
     ([AppendChildren ''p1'' (map JNum [1, 2, 3, 4, 5, 6, 7, 8, 9, 10]),
       AppendChildren ''p1'' (map JNum [11, 12])], Inr ()) \<and>
   (length (map JNum [1, 2, 3, 4, 5, 6, 7, 8, 9, 10, 11, 12]) + 9) div 10 = (2::nat) \<and>
   appendBlocks sample_service ''p1'' [] = ([], Inr ())"
proof -
  have ok: "\<forall>batch. \<exists>r. sample_service (AppendChildren ''p1'' batch) = Inr r \<and> http_status r = 200"
    by (simp add: sample_accepts)
  from appendBlocks_batches [OF ok, of "map JNum [1, 2, 3, 4, 5, 6, 7, 8, 9, 10, 11, 12]" sample_service]
  show ?thesis
    using ok sample_append by simp
qed

text \<open>
  C8. When the service answers the requests for the children of the page up to a page
  without a cursor, and every deletion succeeds, \<open>clearPageBlocks\<close> makes one deletion
  request for each child fetched, the last child first. When fetching the children fails,
  it makes no deletion request.
\<close>

theorem clearPageBlocks_reverse:
  assumes "pagesFrom requestUrl (GetChildren pageId) None pages"
    and "list_all (\<lambda>block. block \<noteq> JNull) (concat (map resultsOf pages))"
    and "\<forall>i. \<exists>r. requestUrl (DeleteBlock i) = Inr r \<and> http_status r = 200"
  shows "clearPageBlocks requestUrl pageId =
           Some (map (\<lambda>block. DeleteBlock (js_get (Some block) ''id''))
                   (rev (concat (map resultsOf pages))), Inr ()) \<and>
         (getPageBlocks anyService pageId = Some (Inl e) \<longrightarrow>
            clearPageBlocks anyService pageId = Some ([], Inl e))"
proof
  have "getPageBlocks requestUrl pageId = Some (Inr (concat (map resultsOf pages)))"
    using blocksLoop_pages [OF assms(1), of "[]"] by (simp add: getPageBlocks_def)
  moreover have "deleteEach requestUrl (rev (concat (map resultsOf pages))) =
      (map (\<lambda>block. DeleteBlock (js_get (Some block) ''id'')) (rev (concat (map resultsOf pages))),
       Inr ())"
    using assms(2) by (intro deleteEach_all [OF assms(3)]) (simp add: list_all_iff)
  ultimately show "clearPageBlocks requestUrl pageId =
           Some (map (\<lambda>block. DeleteBlock (js_get (Some block) ''id''))
                   (rev (concat (map resultsOf pages))), Inr ())"
    by (simp add: clearPageBlocks_def)
  show "getPageBlocks anyService pageId = Some (Inl e) \<longrightarrow>
            clearPageBlocks anyService pageId = Some ([], Inl e)"
    by (simp add: clearPageBlocks_def)
qed

theorem clearPageBlocks_reverse_witness:
  "pagesFrom sample_service (GetChildren ''p1'') None
     [answer [block_json ''b1'', block_json ''b2''] (JStr ''c1''), answer [block_json ''b3''] JNull] \<and>
   list_all (\<lambda>block. block \<noteq> JNull) [block_json ''b1'', block_json ''b2'', block_json ''b3''] \<and>
   (\<forall>i. \<exists>r. sample_service (DeleteBlock i) = Inr r \<and> http_status r = 200) \<and>
   clearPageBlocks sample_service ''p1'' =
     Some ([DeleteBlock (Some (JStr ''b3'')), DeleteBlock (Some (JStr ''b2'')),
            DeleteBlock (Some (JStr ''b1''))], Inr ())"
proof -
  have objects: "list_all (\<lambda>block. block \<noteq> JNull)
      (concat (map resultsOf
        [answer [block_json ''b1'', block_json ''b2''] (JStr ''c1''), answer [block_json ''b3''] JNull]))"
    by (simp add: resultsOf_answer block_json_def)
  have ok: "\<forall>i. \<exists>r. sample_service (DeleteBlock i) = Inr r \<and> http_status r = 200"
    by (simp add: sample_accepts)
  have ids: "js_get (Some (block_json i)) ''id'' = Some (JStr i)" for i
    by (simp add: block_json_def)
  from clearPageBlocks_reverse [OF sample_children objects ok]
  show ?thesis
    using sample_children objects ok by (simp add: resultsOf_answer ids del: pagesFrom.simps)
qed

section \<open>Properties of titles\<close>

lemma lastIndexOf_last:
  assumes "c \<notin> set after"
  shows "lastIndexOf (before @ c # after) c = int (length before)"
proof -
  have "takeWhile (\<lambda>x. x \<noteq> c) (rev after @ c # rev before) = rev after"
    using assms by (subst takeWhile_append2) auto
  then show ?thesis by (simp add: lastIndexOf_def)
qed

lemma splitTitle_last:
  assumes "CHR '':'' \<notin> set after"
  shows "splitTitle (before @ CHR '':'' # after) = Some (before, after)"
proof -
  have "nat (int (length before) + 1) = Suc (length before)" by simp
  with lastIndexOf_last [OF assms, of before] show ?thesis
    by (simp add: splitTitle_def substring_def substringFrom_def Let_def)
qed

lemma splitTitle_none: "CHR '':'' \<notin> set title \<Longrightarrow> splitTitle title = None"
  by (simp add: splitTitle_def lastIndexOf_def)

lemma downloadPage_unparsable:
  assumes "CHR '':'' \<notin> set title" and "name_title page = Some title # others"
  shows "\<exists>e. downloadPage h page v = (failed e, v)"
  using assms by (auto simp: downloadPage_def splitTitle_none)

text \<open>
  C3. The title of an uploaded page is the path, a colon and the basename, and the
  download splits a title at its last colon: when the basename has no colon, the title
  built from a path and the basename splits into that path and that basename. A title
  without any colon does not split, and the download of a page with such a title fails
  and leaves the vault as it was.
\<close>

theorem title_round_trip:
  assumes "CHR '':'' \<notin> set basename" and "CHR '':'' \<notin> set title"
    and "name_title page = Some title # others"
  shows "splitTitle (uploadTitle path basename) = Some (path, basename) \<and>
         splitTitle title = None \<and>
         (\<exists>e. downloadPage h page v = (failed e, v)) \<and>
         success (fst (downloadPage h page v)) = False \<and>
         snd (downloadPage h page v) = v"
proof -
  from downloadPage_unparsable [OF assms(2,3), of h v] obtain e
    where "downloadPage h page v = (failed e, v)" by blast
  then show ?thesis
    using splitTitle_last [OF assms(1), of path] splitTitle_none [OF assms(2)]
    by (simp add: uploadTitle_def failed_def)
qed

theorem title_round_trip_witness:
  "CHR '':'' \<notin> set ''x'' \<and> CHR '':'' \<notin> set ''notitle'' \<and>
   uploadTitle ''projects/x.md'' ''x'' = ''projects/x.md:x'' \<and>
   splitTitle ''projects/x.md:x'' = Some (''projects/x.md'', ''x'') \<and>
   splitTitle ''notitle'' = None \<and>
   downloadPage sample_host \<lparr>page_id = ''ab-12'', name_title = [Some ''notitle'']\<rparr> [] =
     (failed (Thrown ''Page title does not contain path separator''), [])"
proof -
  have a: "CHR '':'' \<notin> set ''x''" and b: "CHR '':'' \<notin> set ''notitle''" by simp_all
  have c: "name_title \<lparr>page_id = ''ab-12'', name_title = [Some ''notitle'']\<rparr> = Some ''notitle'' # []"
    by simp
  have d: "downloadPage sample_host \<lparr>page_id = ''ab-12'', name_title = [Some ''notitle'']\<rparr> [] =
     (failed (Thrown ''Page title does not contain path separator''), [])"
    by (simp add: downloadPage_def splitTitle_none truthy_def)
  from title_round_trip [OF a b c, of "''projects/x.md''" sample_host "[]"]
  show ?thesis using a b d by (simp add: uploadTitle_def)
qed

section \<open>Properties of the upload pass\<close>























end
